theory Spec2Isabelle
  imports Complex_Main "HOL-Library.Log_Nat"
begin

section \<open>Values of the Python runtime\<close>

text \<open>
  Exceptions of \<^verbatim>\<open>import.py\<close> are values. \<open>InterfaceError v\<close> is
  \<^verbatim>\<open>psycopg2.InterfaceError("bad point representation: %r" % v)\<close>;
  \<open>ClientError c\<close> is botocore's \<^verbatim>\<open>ClientError\<close> whose
  \<^verbatim>\<open>response["Error"]["Code"]\<close> is \<open>c\<close>; \<open>OtherError m\<close> is any other exception
  raised by the object-storage client (connection faults, a missing local file on upload).
\<close>

datatype error =
    InterfaceError string
  | TypeError
  | AttributeError
  | ClientError string
  | OtherError string

subsection \<open>Floats\<close>

text \<open>
  A Python float is an IEEE-754 binary64 value. A finite one is modelled by the real number it
  denotes (the two zeros are identified), so \<open>Finite x = Finite y\<close> is Python's \<^verbatim>\<open>==\<close> on
  finite floats. \<open>to_double\<close> rounds a real to the nearest double, ties to even, with gradual
  underflow below \<open>2^-1022\<close> and overflow to infinity: it is what \<^verbatim>\<open>float("...")\<close> does to a
  decimal literal and what the last step of \<^verbatim>\<open>round(x, 4)\<close> does to the rounded decimal.
\<close>

datatype pyfloat = Finite real | PosInf | NegInf | NaN

definition pow2 :: "int \<Rightarrow> real" where
  "pow2 e = (if 0 \<le> e then 2 ^ nat e else 1 / 2 ^ nat (- e))"

definition half_even :: "int \<Rightarrow> real \<Rightarrow> int" where
  "half_even f d =
     (if d < 1 / 2 then f else if 1 / 2 < d then f + 1 else if even f then f else f + 1)"

definition round_half_even :: "real \<Rightarrow> int" where
  "round_half_even r = half_even \<lfloor>r\<rfloor> (r - of_int \<lfloor>r\<rfloor>)"

definition floor_log2 :: "real \<Rightarrow> int" where
  "floor_log2 a = (if 1 \<le> a then bitlen \<lfloor>a\<rfloor> - 1 else - bitlen (\<lceil>1 / a\<rceil> - 1))"

definition pack_double :: "real \<Rightarrow> int \<Rightarrow> int \<Rightarrow> pyfloat" where
  "pack_double r e m =
     (if 1023 < e \<or> (e = 1023 \<and> m = 2 ^ 53) then (if 0 < r then PosInf else NegInf)
      else Finite (sgn r * (of_int m * pow2 (e - 52))))"

definition round_to_exp :: "real \<Rightarrow> int \<Rightarrow> pyfloat" where
  "round_to_exp r e = pack_double r e (round_half_even (\<bar>r\<bar> / pow2 (e - 52)))"

definition to_double :: "real \<Rightarrow> pyfloat" where
  "to_double r =
     (if r = 0 then Finite 0 else round_to_exp r (max (floor_log2 \<bar>r\<bar>) (- 1022)))"

text \<open>
  \<^verbatim>\<open>round(c, 4)\<close> on a float: infinities and NaN are returned as they are; a finite value
  is rounded to the nearest multiple of \<open>10^-4\<close> (of its exact binary value, ties to even)
  and the result is converted back to a double.
\<close>

fun py_round4 :: "pyfloat \<Rightarrow> pyfloat" where
  "py_round4 (Finite x) = to_double (of_int (round_half_even (x * 10 ^ 4)) / 10 ^ 4)"
| "py_round4 f = f"

text \<open>
  \<^verbatim>\<open>float(s)\<close>. Plain decimal literals (an optional sign, digits, an optional point and
  digits, at least one digit) are parsed here. Every other text (exponents, \<^verbatim>\<open>inf\<close>,
  \<^verbatim>\<open>nan\<close>, surrounding blanks, underscores, or no number at all) is left to the parameter
  \<open>ext\<close>, which answers \<open>None\<close> where Python raises \<^verbatim>\<open>ValueError\<close>.
\<close>

definition digit_val :: "char \<Rightarrow> nat option" where
  "digit_val c =
     (if (48::nat) \<le> of_char c \<and> (of_char c :: nat) \<le> 57 then Some (of_char c - 48) else None)"

fun digits_val :: "string \<Rightarrow> nat \<Rightarrow> nat option" where
  "digits_val [] acc = Some acc"
| "digits_val (c # cs) acc =
     (case digit_val c of None \<Rightarrow> None | Some d \<Rightarrow> digits_val cs (10 * acc + d))"

definition decimal_of :: "string \<Rightarrow> string \<Rightarrow> real option" where
  "decimal_of ip fp =
     (if ip = [] \<and> fp = [] then None
      else case digits_val ip 0 of None \<Rightarrow> None
           | Some i \<Rightarrow> (case digits_val fp 0 of None \<Rightarrow> None
               | Some f \<Rightarrow> Some (real i + real f / 10 ^ length fp)))"

definition parse_unsigned :: "string \<Rightarrow> real option" where
  "parse_unsigned s =
     decimal_of (takeWhile (\<lambda>c. c \<noteq> CHR ''.'') s) (drop 1 (dropWhile (\<lambda>c. c \<noteq> CHR ''.'') s))"

fun parse_decimal :: "string \<Rightarrow> real option" where
  "parse_decimal [] = None"
| "parse_decimal (c # cs) =
     (if c = CHR ''-'' then map_option uminus (parse_unsigned cs)
      else if c = CHR ''+'' then parse_unsigned cs
      else parse_unsigned (c # cs))"

definition py_float :: "(string \<Rightarrow> pyfloat option) \<Rightarrow> string \<Rightarrow> pyfloat option" where
  "py_float ext s =
     (case parse_decimal s of Some r \<Rightarrow> Some (to_double r) | None \<Rightarrow> ext s)"

subsection \<open>Strings\<close>

text \<open>
  A Python \<^verbatim>\<open>str\<close> is modelled by its UTF-8 bytes. Every character the code tests or
  inserts is ASCII, and an ASCII byte never occurs inside a multi-byte sequence, so stripping,
  splitting and replacing bytewise agree with Python's codepoint-wise operations.
\<close>

definition strip_chars :: "string \<Rightarrow> string \<Rightarrow> string" where
  "strip_chars cs s =
     rev (dropWhile (\<lambda>c. c \<in> set cs) (rev (dropWhile (\<lambda>c. c \<in> set cs) s)))"

fun split_on :: "char \<Rightarrow> string \<Rightarrow> string list" where
  "split_on sep [] = [[]]"
| "split_on sep (c # cs) =
     (if c = sep then [] # split_on sep cs
      else (case split_on sep cs of [] \<Rightarrow> [[c]] | w # ws \<Rightarrow> (c # w) # ws))"

section \<open>The point decoder\<close>

text \<open>
  \<^verbatim>\<open>cast_point(value, cur)\<close>. The list comprehension converts and rounds every component;
  unpacking it into \<^verbatim>\<open>x, y\<close> raises \<^verbatim>\<open>ValueError\<close> unless there are exactly two. Both
  \<^verbatim>\<open>ValueError\<close>s are caught and re-raised as \<^verbatim>\<open>InterfaceError\<close>.
\<close>

definition cast_point ::
  "(string \<Rightarrow> pyfloat option) \<Rightarrow> string option \<Rightarrow> error + (pyfloat \<times> pyfloat) option" where
  "cast_point ext value =
     (case value of
        None \<Rightarrow> Inr None
      | Some v \<Rightarrow>
          (case those (map (py_float ext) (split_on CHR '','' (strip_chars ''()'' v))) of
             None \<Rightarrow> Inl (InterfaceError v)
           | Some cs \<Rightarrow>
               (case map py_round4 cs of
                  [x, y] \<Rightarrow> Inr (Some (x, y))
                | _ \<Rightarrow> Inl (InterfaceError v))))"

section \<open>Object storage and the bulk uploader\<close>

text \<open>
  A local path \<^verbatim>\<open>Path(images_src_dir) / filename\<close> is kept as its two operands.
  A transfer task is a pair of a local path and a destination key.
\<close>

type_synonym key = string
type_synonym path = "string \<times> string"
type_synonym task = "path \<times> key"

text \<open>
  The object store is an external collaborator. Its remote state has some type \<open>'r\<close>;
  a client says how a metadata probe answers in a remote state and what an upload does
  to it. \<open>HeadClientError c\<close> is a \<^verbatim>\<open>ClientError\<close> with error code \<open>c\<close>,
  \<open>HeadOtherError m\<close> any other exception of the probe.
\<close>

datatype head_result = HeadOk | HeadClientError string | HeadOtherError string

record 'r s3_client =
  head_object :: "'r \<Rightarrow> key \<Rightarrow> head_result"
  upload_file :: "'r \<Rightarrow> path \<Rightarrow> key \<Rightarrow> string \<Rightarrow> error option \<times> 'r"

text \<open>The store as the program sees it: the remote state and the log of the calls made.\<close>

datatype s3_call = Head key | Put path key string

record 'r s3 =
  remote :: 'r
  calls :: "s3_call list"

text \<open>
  \<^verbatim>\<open>upload_image\<close> suspends twice: at \<^verbatim>\<open>await client.head_object\<close> and at
  \<^verbatim>\<open>await client.upload_file\<close>. A task of the uploader is \<open>Queued\<close> before it holds the
  semaphore, \<open>Probing\<close> while its probe is in flight, \<open>Putting\<close> while its upload is in
  flight, and then \<open>Finished\<close> (uploaded, or skipped because the object exists) or
  \<open>Raised e\<close>. \<open>Cancelled\<close> is a task the event loop cancelled before it finished.
\<close>

datatype task_state = Queued | Probing | Putting | Finished | Raised error | Cancelled

definition upload_image_probe :: "'r s3_client \<Rightarrow> task \<Rightarrow> 'r s3 \<Rightarrow> task_state \<times> 'r s3" where
  "upload_image_probe client t s =
     (case head_object client (remote s) (snd t) of
        HeadOk \<Rightarrow> Finished
      | HeadClientError code \<Rightarrow> (if code = ''404'' then Putting else Raised (ClientError code))
      | HeadOtherError m \<Rightarrow> Raised (OtherError m),
      s\<lparr>calls := calls s @ [Head (snd t)]\<rparr>)"

definition upload_image_put :: "'r s3_client \<Rightarrow> task \<Rightarrow> 'r s3 \<Rightarrow> task_state \<times> 'r s3" where
  "upload_image_put client t s =
     (case fst (upload_file client (remote s) (fst t) (snd t) ''image/jpeg'') of
        None \<Rightarrow> Finished
      | Some e \<Rightarrow> Raised e,
      \<lparr>remote = snd (upload_file client (remote s) (fst t) (snd t) ''image/jpeg''),
       calls = calls s @ [Put (fst t) (snd t) ''image/jpeg'']\<rparr>)"

text \<open>One call of \<^verbatim>\<open>upload_image\<close> run on its own: the probe, then the upload if the probe said 404.\<close>

fun raised :: "task_state \<Rightarrow> error option" where
  "raised (Raised e) = Some e"
| "raised _ = None"

definition upload_image :: "'r s3_client \<Rightarrow> path \<Rightarrow> key \<Rightarrow> 'r s3 \<Rightarrow> error option \<times> 'r s3" where
  "upload_image client image_path image_name s =
     (case upload_image_probe client (image_path, image_name) s of
        (Putting, s') \<Rightarrow>
          (raised (fst (upload_image_put client (image_path, image_name) s')),
           snd (upload_image_put client (image_path, image_name) s'))
      | (st, s') \<Rightarrow> (raised st, s'))"

text \<open>
  \<^verbatim>\<open>upload_images_bulk\<close> starts one coroutine per task under
  \<^verbatim>\<open>asyncio.Semaphore(10)\<close> and awaits \<^verbatim>\<open>asyncio.gather\<close> of them. The coroutines
  interleave at their suspension points; which one resumes next is decided by the network.
  A schedule is the list of task indices in the order in which they resume; each resumption
  advances that task by one suspension point. A task that is queued while ten others hold
  the semaphore, or that is already over, does not move.
\<close>

record 'r uploader =
  tasks :: "(task \<times> task_state) list"
  store :: "'r s3"
  first_exc :: "error option"

definition holders :: "'r uploader \<Rightarrow> nat" where
  "holders u = length (filter (\<lambda>ts. snd ts = Probing \<or> snd ts = Putting) (tasks u))"

definition settle :: "nat \<Rightarrow> task_state \<times> 'r s3 \<Rightarrow> 'r uploader \<Rightarrow> 'r uploader" where
  "settle i res u =
     \<lparr>tasks = (tasks u)[i := (fst (tasks u ! i), fst res)],
      store = snd res,
      first_exc = (case first_exc u of Some e \<Rightarrow> Some e | None \<Rightarrow> raised (fst res))\<rparr>"

definition advance :: "'r s3_client \<Rightarrow> nat \<Rightarrow> 'r uploader \<Rightarrow> 'r uploader" where
  "advance client i u =
     (if length (tasks u) \<le> i then u
      else case snd (tasks u ! i) of
        Queued \<Rightarrow>
          (if holders u < 10 then u\<lparr>tasks := (tasks u)[i := (fst (tasks u ! i), Probing)]\<rparr> else u)
      | Probing \<Rightarrow> settle i (upload_image_probe client (fst (tasks u ! i)) (store u)) u
      | Putting \<Rightarrow> settle i (upload_image_put client (fst (tasks u ! i)) (store u)) u
      | _ \<Rightarrow> u)"

text \<open>
  \<^verbatim>\<open>gather\<close> without \<^verbatim>\<open>return_exceptions\<close> passes the first exception of any task to
  its awaiter at once; the exception leaves \<^verbatim>\<open>upload_images_bulk\<close>, and
  \<^verbatim>\<open>asyncio.run\<close> cancels every task that is still pending before it re-raises. Tasks may
  still resume between the first exception and the cancellation: these are the entries of
  the schedule after the failing one. Without an exception \<^verbatim>\<open>gather\<close> returns once every
  task has finished. A schedule that ends before that, with no exception, is a network call
  that never answers: the uploader does not return, which is \<open>None\<close>.
\<close>

fun cancel :: "task_state \<Rightarrow> task_state" where
  "cancel Queued = Cancelled"
| "cancel Probing = Cancelled"
| "cancel Putting = Cancelled"
| "cancel st = st"

definition cancel_pending :: "'r uploader \<Rightarrow> 'r uploader" where
  "cancel_pending u = u\<lparr>tasks := map (\<lambda>ts. (fst ts, cancel (snd ts))) (tasks u)\<rparr>"

datatype outcome = Returned | Failed error

definition conclude :: "'r uploader \<Rightarrow> (outcome \<times> 'r uploader) option" where
  "conclude u =
     (case first_exc u of
        Some e \<Rightarrow> Some (Failed e, cancel_pending u)
      | None \<Rightarrow> if list_all (\<lambda>ts. snd ts = Finished) (tasks u) then Some (Returned, u) else None)"

definition upload_images_bulk ::
  "'r s3_client \<Rightarrow> nat list \<Rightarrow> task list \<Rightarrow> 'r s3 \<Rightarrow> (outcome \<times> 'r uploader) option" where
  "upload_images_bulk client sched images s =
     conclude (fold (advance client) sched
       \<lparr>tasks = map (\<lambda>t. (t, Queued)) images, store = s, first_exc = None\<rparr>)"

text \<open>
  Two object stores used to exercise the uploader. In \<open>ideal_s3\<close> the remote state is the
  list of keys present: a key exists exactly after it has been put, and a put succeeds.
  \<open>forbidding_s3 bad\<close> answers a probe of a key in \<open>bad\<close> with error code 403.
\<close>

definition ideal_s3 :: "key list s3_client" where
  "ideal_s3 =
     \<lparr>head_object = (\<lambda>r k. if k \<in> set r then HeadOk else HeadClientError ''404''),
      upload_file = (\<lambda>r p k ct. (None, k # r))\<rparr>"

definition forbidding_s3 :: "key list \<Rightarrow> key list s3_client" where
  "forbidding_s3 bad =
     \<lparr>head_object = (\<lambda>r k. if k \<in> set bad then HeadClientError ''403''
                             else if k \<in> set r then HeadOk else HeadClientError ''404''),
      upload_file = (\<lambda>r p k ct. (None, k # r))\<rparr>"

text \<open>What an observer sees of a run: the outcome, the final state of each task, the calls made.\<close>

definition report ::
  "(outcome \<times> 'r uploader) option \<Rightarrow> (outcome \<times> task_state list \<times> s3_call list) option" where
  "report res = map_option (\<lambda>ou. (fst ou, map snd (tasks (snd ou)), calls (store (snd ou)))) res"

fun put_keys :: "s3_call list \<Rightarrow> key list" where
  "put_keys [] = []"
| "put_keys (Head k # cs) = put_keys cs"
| "put_keys (Put p k ct # cs) = k # put_keys cs"


text \<open>
  The schedule in which every task in turn is resumed until it is over, and the state of a
  run in which the first \<open>k\<close> tasks have been served so.
\<close>

definition sequential :: "nat \<Rightarrow> nat list" where
  "sequential n = concat (map (\<lambda>i. [i, i, i]) [0..<n])"

definition served :: "nat \<Rightarrow> 'r uploader \<Rightarrow> bool" where
  "served k u \<longleftrightarrow>
     first_exc u \<noteq> None \<or>
     list_all (\<lambda>ts. snd ts = Finished) (take k (tasks u)) \<and>
     list_all (\<lambda>ts. snd ts = Queued) (drop k (tasks u))"


definition keys_of :: "'r uploader \<Rightarrow> key list" where
  "keys_of u = map (\<lambda>ts. snd (fst ts)) (tasks u)"

definition new_calls :: "'r s3 \<Rightarrow> 'r uploader \<Rightarrow> s3_call list" where
  "new_calls s0 u = drop (length (calls s0)) (calls (store u))"

definition live :: "task_state \<Rightarrow> bool" where
  "live st \<longleftrightarrow> st = Queued \<or> st = Probing \<or> st = Putting \<or> st = Finished"

definition progress_inv :: "key list s3 \<Rightarrow> key list uploader \<Rightarrow> bool" where
  "progress_inv s0 u \<longleftrightarrow>
     first_exc u = None \<and>
     (\<forall>j<length (tasks u). live (snd (tasks u ! j)) \<and>
        (snd (tasks u ! j) = Finished \<longrightarrow> snd (fst (tasks u ! j)) \<in> set (remote (store u)))) \<and>
     calls (store u) = calls s0 @ new_calls s0 u \<and>
     set (remote (store u)) = set (remote s0) \<union> set (put_keys (new_calls s0 u)) \<and>
     set (put_keys (new_calls s0 u)) \<subseteq> set (keys_of u)"

definition once_inv :: "key list s3 \<Rightarrow> key list uploader \<Rightarrow> bool" where
  "once_inv s0 u \<longleftrightarrow>
     distinct (keys_of u) \<and>
     (\<forall>j<length (tasks u). snd (tasks u ! j) = Putting \<longrightarrow>
        snd (fst (tasks u ! j)) \<notin> set (remote (store u))) \<and>
     distinct (put_keys (new_calls s0 u)) \<and>
     set (put_keys (new_calls s0 u)) \<inter> set (remote s0) = {}"

definition present_inv :: "key list s3 \<Rightarrow> key list uploader \<Rightarrow> bool" where
  "present_inv s0 u \<longleftrightarrow>
     set (keys_of u) \<subseteq> set (remote s0) \<and>
     (\<forall>j<length (tasks u). snd (tasks u ! j) \<noteq> Putting) \<and>
     put_keys (new_calls s0 u) = []"

section \<open>Asset keys\<close>

text \<open>
  \<^verbatim>\<open>translit(comment, "ru", reversed=True)\<close> belongs to the \<^verbatim>\<open>transliterate\<close> package and
  is a parameter. \<^verbatim>\<open>str.lower\<close> maps \<^verbatim>\<open>A\<close>..\<^verbatim>\<open>Z\<close> to \<^verbatim>\<open>a\<close>..\<^verbatim>\<open>z\<close> on a text that is
  ASCII throughout; what it does to a text with other characters is a parameter as well.
\<close>

record textlib =
  translit :: "string \<Rightarrow> string"
  lower_ext :: "string \<Rightarrow> string"

definition is_ascii :: "char \<Rightarrow> bool" where
  "is_ascii c \<longleftrightarrow> (of_char c :: nat) < 128"

definition ascii_lower :: "char \<Rightarrow> char" where
  "ascii_lower c =
     (case map_of (zip ''ABCDEFGHIJKLMNOPQRSTUVWXYZ'' ''abcdefghijklmnopqrstuvwxyz'') c of
        Some l \<Rightarrow> l
      | None \<Rightarrow> c)"

definition py_lower :: "textlib \<Rightarrow> string \<Rightarrow> string" where
  "py_lower lib s = (if list_all is_ascii s then map ascii_lower s else lower_ext lib s)"

definition replace_space :: "string \<Rightarrow> string" where
  "replace_space s = map (\<lambda>c. if c = CHR '' '' then CHR ''_'' else c) s"

definition gen_image_key :: "textlib \<Rightarrow> string \<Rightarrow> string \<Rightarrow> string" where
  "gen_image_key lib summit_id comment =
     summit_id @ ''_'' @ py_lower lib (replace_space (translit lib comment))"

text \<open>Decimal text of a number, as an f-string writes it.\<close>

fun str_nat :: "nat \<Rightarrow> string" where
  "str_nat n =
     (if n < 10 then [''0123456789'' ! n]
      else str_nat (n div 10) @ [''0123456789'' ! (n mod 10)])"

declare str_nat.simps [simp del]

definition str_int :: "int \<Rightarrow> string" where
  "str_int k = (if k < 0 then CHR ''-'' # str_nat (nat (- k)) else str_nat (nat k))"

definition image_s3_key :: "textlib \<Rightarrow> string \<Rightarrow> string \<Rightarrow> nat \<Rightarrow> key" where
  "image_s3_key lib summit_id comment i =
     ''summits/'' @ gen_image_key lib summit_id comment @ ''_'' @ str_nat i @ ''.jpg''"

definition preview_s3_key :: "textlib \<Rightarrow> string \<Rightarrow> string \<Rightarrow> nat \<Rightarrow> key" where
  "preview_s3_key lib summit_id comment i =
     ''summits/'' @ gen_image_key lib summit_id comment @ ''_'' @ str_nat i @ ''_preview.jpg''"

section \<open>The summit exporter\<close>

text \<open>
  A row of the query of \<^verbatim>\<open>import_summits\<close>: eight columns of the summit and three of the
  joined image, which are all \<^verbatim>\<open>None\<close> for a summit without images. The two identifiers
  are texts; \<open>coordinates\<close> is what \<^verbatim>\<open>cast_point\<close> returned for the column.
\<close>

datatype pyval = PyNone | PyStr string | PyInt int

record summit_row =
  summit_id :: string
  ridge_id :: string
  name :: pyval
  name_alt :: pyval
  height :: pyval
  description :: pyval
  interpretation_col :: pyval
  coordinates :: "(pyfloat \<times> pyfloat) option"
  image_filename :: "string option"
  preview_filename :: "string option"
  comment :: "string option"

text \<open>
  \<^verbatim>\<open>groupby\<close> compares the keys \<^verbatim>\<open>tuple(row[:8])\<close> with \<^verbatim>\<open>==\<close>. The keys of two rows are
  different objects, so the floats inside are compared by value, and NaN differs from NaN.
\<close>

definition float_eq :: "pyfloat \<Rightarrow> pyfloat \<Rightarrow> bool" where
  "float_eq a b \<longleftrightarrow> a = b \<and> a \<noteq> NaN"

fun coords_eq :: "(pyfloat \<times> pyfloat) option \<Rightarrow> (pyfloat \<times> pyfloat) option \<Rightarrow> bool" where
  "coords_eq None None = True"
| "coords_eq (Some (x, y)) (Some (x', y')) = (float_eq x x' \<and> float_eq y y')"
| "coords_eq _ _ = False"

definition key_eq :: "summit_row \<Rightarrow> summit_row \<Rightarrow> bool" where
  "key_eq a b \<longleftrightarrow>
     summit_id a = summit_id b \<and> ridge_id a = ridge_id b \<and> name a = name b \<and>
     name_alt a = name_alt b \<and> height a = height b \<and> description a = description b \<and>
     interpretation_col a = interpretation_col b \<and> coords_eq (coordinates a) (coordinates b)"

text \<open>
  \<^verbatim>\<open>itertools.groupby\<close>: a group is opened by a row and takes the rows that follow while
  their key equals the key of the opening row. A group is returned with its opening row,
  whose first eight columns are the \<^verbatim>\<open>summit\<close> of the loop.
\<close>

function groupby :: "summit_row list \<Rightarrow> (summit_row \<times> summit_row list) list" where
  "groupby [] = []"
| "groupby (r # rs) = (r, r # takeWhile (key_eq r) rs) # groupby (dropWhile (key_eq r) rs)"
  by pat_completeness auto
termination
  by (relation "measure length") (auto simp: length_dropWhile_le less_Suc_eq_le)

record image_ref =
  url :: key
  preview_url :: key
  ref_comment :: string

record summit_data =
  data_name :: pyval
  data_name_alt :: pyval
  data_height :: pyval
  data_description :: pyval
  data_interpretation :: pyval
  data_coordinates :: "pyfloat list"
  data_images :: "image_ref list"

text \<open>
  The inner loop over the rows of one group. \<^verbatim>\<open>Path(images_src_dir) / preview_filename\<close>
  raises \<^verbatim>\<open>TypeError\<close> for \<^verbatim>\<open>None\<close>, and \<^verbatim>\<open>translit\<close> calls a string method of its
  argument, which raises \<^verbatim>\<open>AttributeError\<close> for \<^verbatim>\<open>None\<close>. The accumulators are the
  \<^verbatim>\<open>"images"\<close> of the document and the list \<^verbatim>\<open>images_to_upload\<close>; they are returned as
  they stand, also when the loop raises.
\<close>

fun image_loop ::
  "textlib \<Rightarrow> string \<Rightarrow> string \<Rightarrow> summit_row list \<Rightarrow> nat \<Rightarrow> image_ref list \<Rightarrow> task list \<Rightarrow>
   error option \<times> image_ref list \<times> task list" where
  "image_loop lib dir sid [] i imgs ups = (None, imgs, ups)"
| "image_loop lib dir sid (img # rest) i imgs ups =
     (case image_filename img of
        None \<Rightarrow> image_loop lib dir sid rest i imgs ups
      | Some f \<Rightarrow>
          (case preview_filename img of
             None \<Rightarrow> (Some TypeError, imgs, ups)
           | Some p \<Rightarrow>
               (case comment img of
                  None \<Rightarrow> (Some AttributeError, imgs, ups)
                | Some c \<Rightarrow>
                    image_loop lib dir sid rest (i + 1)
                      (imgs @ [\<lparr>url = image_s3_key lib sid c i,
                                 preview_url = preview_s3_key lib sid c i,
                                 ref_comment = c\<rparr>])
                      (ups @ [((dir, f), image_s3_key lib sid c i),
                              ((dir, p), preview_s3_key lib sid c i)]))))"

text \<open>
  The outer loop. \<^verbatim>\<open>list(coordinates)\<close> raises \<^verbatim>\<open>TypeError\<close> for \<^verbatim>\<open>None\<close>, before the
  rows of the group are looked at. A document is written to
  \<^verbatim>\<open>DEST_DIR / ridge_id / f"{summit_id}.yaml"\<close>, kept as the pair of the directory and the
  file name; the directory is taken to exist. The documents written so far stay written
  when a later group raises.
\<close>

record export_state =
  files :: "(path \<times> summit_data) list"
  images_to_upload :: "task list"

fun summit_loop ::
  "textlib \<Rightarrow> string \<Rightarrow> (summit_row \<times> summit_row list) list \<Rightarrow> export_state \<Rightarrow>
   error option \<times> export_state" where
  "summit_loop lib dir [] st = (None, st)"
| "summit_loop lib dir ((summit, img_group) # groups) st =
     (case coordinates summit of
        None \<Rightarrow> (Some TypeError, st)
      | Some xy \<Rightarrow>
          (case image_loop lib dir (summit_id summit) img_group 0 [] (images_to_upload st) of
             (Some e, imgs, ups) \<Rightarrow> (Some e, st\<lparr>images_to_upload := ups\<rparr>)
           | (None, imgs, ups) \<Rightarrow>
               summit_loop lib dir groups
                 \<lparr>files = files st @
                    [((ridge_id summit, summit_id summit @ ''.yaml''),
                      \<lparr>data_name = name summit, data_name_alt = name_alt summit,
                       data_height = height summit, data_description = description summit,
                       data_interpretation = interpretation_col summit,
                       data_coordinates = [fst xy, snd xy], data_images = imgs\<rparr>)],
                  images_to_upload = ups\<rparr>))"

definition export_summits :: "textlib \<Rightarrow> string \<Rightarrow> summit_row list \<Rightarrow> error option \<times> export_state" where
  "export_summits lib dir rows = summit_loop lib dir (groupby rows) \<lparr>files = [], images_to_upload = []\<rparr>"

text \<open>
  \<^verbatim>\<open>import_summits\<close>: the export, then \<^verbatim>\<open>asyncio.run(upload_images_bulk(...))\<close> on the
  accumulated list. The uploader is not reached when the export raises.
\<close>

definition import_summits ::
  "'r s3_client \<Rightarrow> nat list \<Rightarrow> textlib \<Rightarrow> string \<Rightarrow> summit_row list \<Rightarrow> 'r s3 \<Rightarrow>
   (outcome \<times> export_state \<times> 'r uploader option) option" where
  "import_summits client sched lib images_src_dir rows s =
     (case export_summits lib images_src_dir rows of
        (Some e, st) \<Rightarrow> Some (Failed e, st, None)
      | (None, st) \<Rightarrow>
          map_option (\<lambda>ou. (fst ou, st, Some (snd ou)))
            (upload_images_bulk client sched (images_to_upload st) s))"








section \<open>The mirror store\<close>

text \<open>
  Modelled from the spec: the schema of the mirror store, whose tables are created outside
  this program. The specification gives \<^verbatim>\<open>users(id PK, oauth_id, src, name)\<close>,
  \<^verbatim>\<open>user_images(user_id, size, url)\<close> and
  \<^verbatim>\<open>climbs(user_id, summit_id, comment, year, month, day)\<close>, the last two without a key or
  any other constraint. A table is the list of its rows in insertion order.
\<close>

type_synonym users_entry = "int \<times> string \<times> int \<times> string"
type_synonym user_images_entry = "int \<times> string \<times> string"
type_synonym climb_row = "int \<times> string \<times> pyval \<times> pyval \<times> pyval \<times> pyval"

record mirror =
  users :: "users_entry list"
  user_images :: "user_images_entry list"
  climbs :: "climb_row list"

text \<open>
  A connection of \<^verbatim>\<open>sqlite3\<close>: statements change the working state, and
  \<^verbatim>\<open>commit()\<close> makes the working state the committed one.
\<close>

record sqlite_conn =
  committed :: mirror
  working :: mirror

text \<open>A row of \<^verbatim>\<open>SELECT id, oauth_id, src, name, image, preview FROM users\<close>.\<close>

record user_row =
  user_id :: int
  oauth_id :: string
  src :: int
  user_name :: string
  user_image :: "string option"
  user_preview :: "string option"

text \<open>\<^verbatim>\<open>INSERT INTO users ... ON CONFLICT DO NOTHING\<close>: nothing happens when the id is taken.\<close>

definition execute_insert_user :: "mirror \<Rightarrow> users_entry \<Rightarrow> mirror" where
  "execute_insert_user m e =
     (if fst e \<in> fst ` set (users m) then m else m\<lparr>users := users m @ [e]\<rparr>)"

text \<open>\<^verbatim>\<open>if image:\<close> holds for a text that is neither \<^verbatim>\<open>None\<close> nor empty.\<close>

definition truthy :: "string option \<Rightarrow> bool" where
  "truthy v \<longleftrightarrow> v \<noteq> None \<and> v \<noteq> Some []"

definition user_key :: "int \<Rightarrow> string \<Rightarrow> key" where
  "user_key uid sz = ''users/'' @ str_int uid @ ''_'' @ sz @ ''.jpg''"

text \<open>
  The loop over \<^verbatim>\<open>[(image, "M"), (preview, "S")]\<close>. The path is built first, which raises
  \<^verbatim>\<open>TypeError\<close> for \<^verbatim>\<open>None\<close>; then \<^verbatim>\<open>img_path.exists()\<close> is asked, which is the
  parameter \<open>ex\<close>.
\<close>

fun asset_loop ::
  "(path \<Rightarrow> bool) \<Rightarrow> string \<Rightarrow> int \<Rightarrow> (string option \<times> string) list \<Rightarrow> task list \<Rightarrow> mirror \<Rightarrow>
   error option \<times> task list \<times> mirror" where
  "asset_loop ex dir uid [] ups m = (None, ups, m)"
| "asset_loop ex dir uid ((img, sz) # rest) ups m =
     (case img of
        None \<Rightarrow> (Some TypeError, ups, m)
      | Some f \<Rightarrow>
          (if \<not> ex (dir, f) then asset_loop ex dir uid rest ups m
           else asset_loop ex dir uid rest
                  (ups @ [((dir, f), user_key uid sz)])
                  (m\<lparr>user_images := user_images m @ [(uid, sz, user_key uid sz)]\<rparr>)))"

fun user_loop ::
  "(path \<Rightarrow> bool) \<Rightarrow> string \<Rightarrow> user_row list \<Rightarrow> task list \<Rightarrow> mirror \<Rightarrow>
   error option \<times> task list \<times> mirror" where
  "user_loop ex dir [] ups m = (None, ups, m)"
| "user_loop ex dir (row # rows) ups m =
     (if truthy (user_image row) then
        (case asset_loop ex dir (user_id row) [(user_image row, ''M''), (user_preview row, ''S'')] ups
                (execute_insert_user m (user_id row, oauth_id row, src row, user_name row)) of
           (Some e, ups', m') \<Rightarrow> (Some e, ups', m')
         | (None, ups', m') \<Rightarrow> user_loop ex dir rows ups' m')
      else user_loop ex dir rows ups
             (execute_insert_user m (user_id row, oauth_id row, src row, user_name row)))"

text \<open>
  \<^verbatim>\<open>import_users\<close>: the loop, the uploader, and the commit, which is reached only when
  neither of the first two raised.
\<close>

definition import_users ::
  "'r s3_client \<Rightarrow> nat list \<Rightarrow> (path \<Rightarrow> bool) \<Rightarrow> string \<Rightarrow> user_row list \<Rightarrow> 'r s3 \<Rightarrow> sqlite_conn \<Rightarrow>
   (outcome \<times> sqlite_conn \<times> 'r s3) option" where
  "import_users client sched ex images_src_dir rows s conn =
     (case user_loop ex images_src_dir rows [] (working conn) of
        (Some e, ups, m) \<Rightarrow> Some (Failed e, conn\<lparr>working := m\<rparr>, s)
      | (None, ups, m) \<Rightarrow>
          (case upload_images_bulk client sched ups s of
             None \<Rightarrow> None
           | Some (Failed e, u) \<Rightarrow> Some (Failed e, conn\<lparr>working := m\<rparr>, store u)
           | Some (Returned, u) \<Rightarrow> Some (Returned, \<lparr>committed = m, working = m\<rparr>, store u)))"

text \<open>\<^verbatim>\<open>import_climbs\<close>: one plain insert per row, then the commit.\<close>

definition execute_insert_climb :: "mirror \<Rightarrow> climb_row \<Rightarrow> mirror" where
  "execute_insert_climb m c = m\<lparr>climbs := climbs m @ [c]\<rparr>"

definition import_climbs :: "climb_row list \<Rightarrow> sqlite_conn \<Rightarrow> sqlite_conn" where
  "import_climbs rows conn =
     \<lparr>committed = foldl execute_insert_climb (working conn) rows,
      working = foldl execute_insert_climb (working conn) rows\<rparr>"

text \<open>
  What the users import adds for one row, said directly: of the image (size \<open>M\<close>) and the
  preview (size \<open>S\<close>) of a row with an image, those whose file exists.
\<close>

definition present_assets :: "(path \<Rightarrow> bool) \<Rightarrow> string \<Rightarrow> user_row \<Rightarrow> (string \<times> string) list" where
  "present_assets ex dir r =
     (if truthy (user_image r)
      then filter (\<lambda>fs. ex (dir, fst fs)) [(the (user_image r), ''M''), (the (user_preview r), ''S'')]
      else [])"

definition user_tasks :: "(path \<Rightarrow> bool) \<Rightarrow> string \<Rightarrow> user_row \<Rightarrow> task list" where
  "user_tasks ex dir r =
     map (\<lambda>fs. ((dir, fst fs), user_key (user_id r) (snd fs))) (present_assets ex dir r)"

definition user_image_rows :: "(path \<Rightarrow> bool) \<Rightarrow> string \<Rightarrow> user_row \<Rightarrow> user_images_entry list" where
  "user_image_rows ex dir r =
     map (\<lambda>fs. (user_id r, snd fs, user_key (user_id r) (snd fs))) (present_assets ex dir r)"

definition users_entry_of :: "user_row \<Rightarrow> users_entry" where
  "users_entry_of r = (user_id r, oauth_id r, src r, user_name r)"

text \<open>The mirror after the users import has gone through the given rows without raising.\<close>

fun mirror_after :: "(path \<Rightarrow> bool) \<Rightarrow> string \<Rightarrow> user_row list \<Rightarrow> mirror \<Rightarrow> mirror" where
  "mirror_after ex dir [] m = m"
| "mirror_after ex dir (r # rs) m =
     mirror_after ex dir rs
       ((execute_insert_user m (users_entry_of r))
          \<lparr>user_images := user_images m @ user_image_rows ex dir r\<rparr>)"

section \<open>Sample data\<close>

text \<open>
  The comment of the end-to-end scenario, three Cyrillic letters, in UTF-8; an excerpt of the
  Russian table of the transliteration package that covers these letters; and rows of the
  summits query with chosen image columns.
\<close>

definition vid :: string where
  "vid = [CHR 0xD0, CHR 0x92, CHR 0xD0, CHR 0xB8, CHR 0xD0, CHR 0xB4]"

fun translit_excerpt :: "string \<Rightarrow> string" where
  "translit_excerpt (a # b # cs) =
     (if a = CHR 0xD0 \<and> b = CHR 0x92 then CHR ''V'' # translit_excerpt cs
      else if a = CHR 0xD0 \<and> b = CHR 0xB8 then CHR ''i'' # translit_excerpt cs
      else if a = CHR 0xD0 \<and> b = CHR 0xB4 then CHR ''d'' # translit_excerpt cs
      else a # translit_excerpt (b # cs))"
| "translit_excerpt cs = cs"

definition sample_textlib :: textlib where
  "sample_textlib = \<lparr>translit = translit_excerpt, lower_ext = (\<lambda>s. s)\<rparr>"

definition sample_row ::
  "string \<Rightarrow> string option \<Rightarrow> string option \<Rightarrow> string option \<Rightarrow> summit_row" where
  "sample_row sid f p c =
     \<lparr>summit_id = sid, ridge_id = ''r1'', name = PyStr ''Peak'', name_alt = PyNone,
      height = PyInt 4000, description = PyNone, interpretation_col = PyNone,
      coordinates = Some (Finite 45, Finite 7),
      image_filename = f, preview_filename = p, comment = c\<rparr>"


text \<open>Every key that a written document refers to is the destination of a queued task.\<close>

definition refs_queued :: "export_state \<Rightarrow> bool" where
  "refs_queued st \<longleftrightarrow>
     (\<forall>f\<in>set (files st). \<forall>img\<in>set (data_images (snd f)).
        url img \<in> snd ` set (images_to_upload st) \<and>
        preview_url img \<in> snd ` set (images_to_upload st))"

text \<open>
  Fetching a row: \<^verbatim>\<open>main\<close> registers \<^verbatim>\<open>cast_point\<close> as the typecaster of the point
  type, so the coordinates column of a fetched row is what \<^verbatim>\<open>cast_point\<close> makes of the
  text sent by the database.
\<close>

definition read_row ::
  "(string \<Rightarrow> pyfloat option) \<Rightarrow> summit_row \<Rightarrow> string option \<Rightarrow> error + summit_row" where
  "read_row ext r point_text =
     (case cast_point ext point_text of
        Inl e \<Rightarrow> Inl e
      | Inr c \<Rightarrow> Inr (r\<lparr>coordinates := c\<rparr>))"

text \<open>
  The end-to-end scenario of the specification: summit \<open>s1\<close> of ridge \<open>r1\<close> with the
  coordinate text \<^verbatim>\<open>(45.12345,7.6789)\<close> and one image row, fetched and exported.
\<close>

definition end_to_end ::
  "textlib \<Rightarrow> (string \<Rightarrow> pyfloat option) \<Rightarrow> string \<Rightarrow> error option \<times> export_state" where
  "end_to_end lib ext dir =
     (case read_row ext (sample_row ''s1'' (Some ''a.jpg'') (Some ''a_p.jpg'') (Some vid))
             (Some ''(45.12345,7.6789)'') of
        Inl e \<Rightarrow> (Some e, \<lparr>files = [], images_to_upload = []\<rparr>)
      | Inr row \<Rightarrow> export_summits lib dir [row])"

text \<open>Two users, one with both assets and one without an image, and the files on disk.\<close>

definition sample_users :: "user_row list" where
  "sample_users =
     [\<lparr>user_id = 1, oauth_id = ''o1'', src = 1, user_name = ''Ann'',
       user_image = Some ''1.jpg'', user_preview = Some ''1_p.jpg''\<rparr>,
      \<lparr>user_id = 2, oauth_id = ''o2'', src = 2, user_name = ''Bob'',
       user_image = None, user_preview = None\<rparr>]"

definition sample_disk :: "path \<Rightarrow> bool" where
  "sample_disk p \<longleftrightarrow> p \<in> set [(''/img'', ''1.jpg'')]"

definition empty_mirror :: mirror where
  "empty_mirror = \<lparr>users = [], user_images = [], climbs = []\<rparr>"

text \<open>A user with an image and no preview, and the mirror after one and after two imports.\<close>

definition user_without_preview :: "user_row list" where
  "user_without_preview =
     [\<lparr>user_id = 3, oauth_id = ''o3'', src = 1, user_name = ''Cyd'',
       user_image = Some ''3.jpg'', user_preview = None\<rparr>]"

definition mirror_once :: mirror where
  "mirror_once =
     \<lparr>users = [(1, ''o1'', 1, ''Ann''), (2, ''o2'', 2, ''Bob'')],
      user_images = [(1, ''M'', ''users/1_M.jpg'')],
      climbs = []\<rparr>"

definition mirror_twice :: mirror where
  "mirror_twice =
     \<lparr>users = [(1, ''o1'', 1, ''Ann''), (2, ''o2'', 2, ''Bob'')],
      user_images = [(1, ''M'', ''users/1_M.jpg''), (1, ''M'', ''users/1_M.jpg'')],
      climbs = []\<rparr>"

definition store_once :: "key list s3" where
  "store_once =
     \<lparr>remote = [''users/1_M.jpg''],
      calls = [Head ''users/1_M.jpg'', Put (''/img'', ''1.jpg'') ''users/1_M.jpg'' ''image/jpeg'']\<rparr>"

definition store_twice :: "key list s3" where
  "store_twice =
     \<lparr>remote = [''users/1_M.jpg''],
      calls = [Head ''users/1_M.jpg'', Put (''/img'', ''1.jpg'') ''users/1_M.jpg'' ''image/jpeg'',
               Head ''users/1_M.jpg'']\<rparr>"

section \<open>Properties of the point decoder\<close>

lemmas float_eval = to_double_def round_to_exp_def pack_double_def floor_log2_def
  round_half_even_def half_even_def pow2_def compute_bitlen

lemmas parse_eval = py_float_def parse_unsigned_def decimal_of_def digit_val_def







section \<open>Properties of the uploader\<close>

lemmas uploader_eval = upload_images_bulk_def advance_def holders_def settle_def
  upload_image_probe_def upload_image_put_def conclude_def cancel_pending_def report_def

text \<open>
  C3. For one transfer task: when the probe reports that the key exists, the uploader makes
  no put and raises nothing; when the probe fails with error code 404, it calls the upload
  with content type \<^verbatim>\<open>image/jpeg\<close> (and raises what the upload raises, if anything); any
  other probe failure, a client error with another code or another exception, is raised for
  that task and no put is made.
\<close>

theorem upload_image_cases:
  "(head_object client (remote s) k = HeadOk \<longrightarrow>
      upload_image client p k s = (None, s\<lparr>calls := calls s @ [Head k]\<rparr>)) \<and>
   (head_object client (remote s) k = HeadClientError ''404'' \<longrightarrow>
      upload_image client p k s =
        (fst (upload_file client (remote s) p k ''image/jpeg''),
         \<lparr>remote = snd (upload_file client (remote s) p k ''image/jpeg''),
          calls = calls s @ [Head k, Put p k ''image/jpeg'']\<rparr>)) \<and>
   (\<forall>c. head_object client (remote s) k = HeadClientError c \<and> c \<noteq> ''404'' \<longrightarrow>
      upload_image client p k s = (Some (ClientError c), s\<lparr>calls := calls s @ [Head k]\<rparr>)) \<and>
   (\<forall>m. head_object client (remote s) k = HeadOtherError m \<longrightarrow>
      upload_image client p k s = (Some (OtherError m), s\<lparr>calls := calls s @ [Head k]\<rparr>))"
proof (intro conjI allI impI)
  assume "head_object client (remote s) k = HeadOk"
  then show "upload_image client p k s = (None, s\<lparr>calls := calls s @ [Head k]\<rparr>)"
    by (simp add: upload_image_def upload_image_probe_def)
next
  assume "head_object client (remote s) k = HeadClientError ''404''"
  then show "upload_image client p k s =
        (fst (upload_file client (remote s) p k ''image/jpeg''),
         \<lparr>remote = snd (upload_file client (remote s) p k ''image/jpeg''),
          calls = calls s @ [Head k, Put p k ''image/jpeg'']\<rparr>)"
    by (cases "fst (upload_file client (remote s) p k ''image/jpeg'')")
      (simp_all add: upload_image_def upload_image_probe_def upload_image_put_def)
next
  fix c
  assume "head_object client (remote s) k = HeadClientError c \<and> c \<noteq> ''404''"
  then show "upload_image client p k s = (Some (ClientError c), s\<lparr>calls := calls s @ [Head k]\<rparr>)"
    by (simp add: upload_image_def upload_image_probe_def)
next
  fix m
  assume "head_object client (remote s) k = HeadOtherError m"
  then show "upload_image client p k s = (Some (OtherError m), s\<lparr>calls := calls s @ [Head k]\<rparr>)"
    by (simp add: upload_image_def upload_image_probe_def)
qed

text \<open>The four cases of the probe at concrete stores.\<close>

theorem upload_image_cases_witness:
  "head_object ideal_s3 [''k''] ''k'' = HeadOk \<and>
   upload_image ideal_s3 (''d'', ''a.jpg'') ''k'' \<lparr>remote = [''k''], calls = []\<rparr> =
     (None, \<lparr>remote = [''k''], calls = [Head ''k'']\<rparr>) \<and>
   head_object ideal_s3 [] ''k'' = HeadClientError ''404'' \<and>
   upload_image ideal_s3 (''d'', ''a.jpg'') ''k'' \<lparr>remote = [], calls = []\<rparr> =
     (None, \<lparr>remote = [''k''], calls = [Head ''k'', Put (''d'', ''a.jpg'') ''k'' ''image/jpeg'']\<rparr>) \<and>
   head_object (forbidding_s3 [''k'']) [] ''k'' = HeadClientError ''403'' \<and>
   upload_image (forbidding_s3 [''k'']) (''d'', ''a.jpg'') ''k'' \<lparr>remote = [], calls = []\<rparr> =
     (Some (ClientError ''403''), \<lparr>remote = [], calls = [Head ''k'']\<rparr>) \<and>
   upload_image \<lparr>head_object = (\<lambda>r k. HeadOtherError ''timeout''),
                 upload_file = (\<lambda>r p k ct. (None, k # r))\<rparr>
       (''d'', ''a.jpg'') ''k'' \<lparr>remote = [], calls = []\<rparr> =
     (Some (OtherError ''timeout''), \<lparr>remote = [], calls = [Head ''k'']\<rparr>)"
proof -
  have a: "head_object ideal_s3 (remote \<lparr>remote = [''k''], calls = []\<rparr>) ''k'' = HeadOk"
    by (simp add: ideal_s3_def)
  have b: "head_object ideal_s3 (remote \<lparr>remote = [], calls = []\<rparr>) ''k'' = HeadClientError ''404''"
    by (simp add: ideal_s3_def)
  have c: "head_object (forbidding_s3 [''k'']) (remote \<lparr>remote = [], calls = []\<rparr>) ''k'' =
      HeadClientError ''403'' \<and> ''403'' \<noteq> ''404''"
    by (simp add: forbidding_s3_def)
  have d: "head_object \<lparr>head_object = (\<lambda>r k. HeadOtherError ''timeout''),
      upload_file = (\<lambda>r p k ct. (None, k # r))\<rparr> (remote \<lparr>remote = [], calls = []\<rparr>) ''k'' =
      HeadOtherError ''timeout''"
    by simp
  from a upload_image_cases [of ideal_s3 "\<lparr>remote = [''k''], calls = []\<rparr>" "''k''" "(''d'', ''a.jpg'')"]
  have 1: "upload_image ideal_s3 (''d'', ''a.jpg'') ''k'' \<lparr>remote = [''k''], calls = []\<rparr> =
     (None, \<lparr>remote = [''k''], calls = [Head ''k'']\<rparr>)"
    by simp
  from b upload_image_cases [of ideal_s3 "\<lparr>remote = [], calls = []\<rparr>" "''k''" "(''d'', ''a.jpg'')"]
  have 2: "upload_image ideal_s3 (''d'', ''a.jpg'') ''k'' \<lparr>remote = [], calls = []\<rparr> =
     (None, \<lparr>remote = [''k''], calls = [Head ''k'', Put (''d'', ''a.jpg'') ''k'' ''image/jpeg'']\<rparr>)"
    by (simp add: ideal_s3_def)
  from c upload_image_cases [of "forbidding_s3 [''k'']" "\<lparr>remote = [], calls = []\<rparr>" "''k''"
      "(''d'', ''a.jpg'')"]
  have 3: "upload_image (forbidding_s3 [''k'']) (''d'', ''a.jpg'') ''k'' \<lparr>remote = [], calls = []\<rparr> =
     (Some (ClientError ''403''), \<lparr>remote = [], calls = [Head ''k'']\<rparr>)"
    by simp
  from d upload_image_cases [of "\<lparr>head_object = (\<lambda>r k. HeadOtherError ''timeout''),
      upload_file = (\<lambda>r p k ct. (None, k # r))\<rparr>" "\<lparr>remote = [], calls = []\<rparr>" "''k''"
      "(''d'', ''a.jpg'')"]
  have 4: "upload_image \<lparr>head_object = (\<lambda>r k. HeadOtherError ''timeout''),
                 upload_file = (\<lambda>r p k ct. (None, k # r))\<rparr>
       (''d'', ''a.jpg'') ''k'' \<lparr>remote = [], calls = []\<rparr> =
     (Some (OtherError ''timeout''), \<lparr>remote = [], calls = [Head ''k'']\<rparr>)"
    by simp
  from a b c 1 2 3 4 show ?thesis by simp
qed

subsection \<open>The fan-in barrier\<close>


lemma length_tasks_advance [simp]: "length (tasks (advance client i u)) = length (tasks u)"
  by (simp add: advance_def settle_def split: task_state.splits)

lemma map_update_same: "i < length xs \<Longrightarrow> (map f xs)[i := f (xs ! i)] = map f xs"
  by (simp add: list_eq_iff_nth_eq nth_list_update)

lemma map_fst_tasks_advance [simp]: "map fst (tasks (advance client i u)) = map fst (tasks u)"
  by (simp add: advance_def settle_def map_update map_update_same split: task_state.splits)

lemma map_fst_tasks_fold [simp]:
  "map fst (tasks (fold (advance client) sched u)) = map fst (tasks u)"
  by (induction sched arbitrary: u) simp_all






lemma cancel_Raised: "cancel (Raised e) = Raised e"
  by simp





subsection \<open>A schedule on which the uploader concludes\<close>

lemma length_tasks_fold [simp]:
  "length (tasks (fold (advance client) sched u)) = length (tasks u)"
  by (induction sched arbitrary: u) simp_all

lemma advance_other:
  "j \<noteq> k \<Longrightarrow> tasks (advance client k u) ! j = tasks u ! j"
  by (simp add: advance_def settle_def split: task_state.splits)

lemma advance_keeps_exc:
  "first_exc u \<noteq> None \<Longrightarrow> first_exc (advance client i u) \<noteq> None"
  by (auto simp: advance_def settle_def split: task_state.splits)

lemma advance_queued:
  assumes "k < length (tasks u)" "snd (tasks u ! k) = Queued" "holders u < 10"
  shows "snd (tasks (advance client k u) ! k) = Probing"
    and "first_exc (advance client k u) = first_exc u"
  using assms by (simp_all add: advance_def)

lemma advance_probing:
  assumes "k < length (tasks u)" "snd (tasks u ! k) = Probing" "first_exc u = None"
  shows "first_exc (advance client k u) \<noteq> None \<or>
     first_exc (advance client k u) = None \<and>
       (snd (tasks (advance client k u) ! k) = Finished \<or>
        snd (tasks (advance client k u) ! k) = Putting)"
  using assms
  by (simp add: advance_def settle_def upload_image_probe_def split: head_result.splits)

lemma advance_putting:
  assumes "k < length (tasks u)" "snd (tasks u ! k) = Putting" "first_exc u = None"
  shows "first_exc (advance client k u) \<noteq> None \<or>
     first_exc (advance client k u) = None \<and> snd (tasks (advance client k u) ! k) = Finished"
  using assms
  by (simp add: advance_def settle_def upload_image_put_def split: option.splits)

lemma advance_finished:
  "snd (tasks u ! k) = Finished \<Longrightarrow> advance client k u = u"
  by (simp add: advance_def)

lemma served_nth:
  assumes "first_exc u = None"
  shows "served k u \<longleftrightarrow>
     (\<forall>j<length (tasks u). snd (tasks u ! j) = (if j < k then Finished else Queued))"
proof -
  have t: "list_all (\<lambda>ts. snd ts = Finished) (take k (tasks u)) \<longleftrightarrow>
      (\<forall>j<length (tasks u). j < k \<longrightarrow> snd (tasks u ! j) = Finished)"
    by (auto simp: list_all_length)
  have d: "list_all (\<lambda>ts. snd ts = Queued) (drop k (tasks u)) \<longleftrightarrow>
      (\<forall>j<length (tasks u). k \<le> j \<longrightarrow> snd (tasks u ! j) = Queued)"
  proof
    assume a: "list_all (\<lambda>ts. snd ts = Queued) (drop k (tasks u))"
    show "\<forall>j<length (tasks u). k \<le> j \<longrightarrow> snd (tasks u ! j) = Queued"
    proof (intro allI impI)
      fix j assume j: "j < length (tasks u)" "k \<le> j"
      then have "j - k < length (drop k (tasks u))" by simp
      with a have "snd (drop k (tasks u) ! (j - k)) = Queued"
        by (simp add: list_all_length)
      with j show "snd (tasks u ! j) = Queued" by simp
    qed
  next
    assume "\<forall>j<length (tasks u). k \<le> j \<longrightarrow> snd (tasks u ! j) = Queued"
    then show "list_all (\<lambda>ts. snd ts = Queued) (drop k (tasks u))"
      by (simp add: list_all_length)
  qed
  show ?thesis
    unfolding served_def t d using assms by (auto simp: not_less)
qed

lemma served_holders:
  assumes "first_exc u = None" "served k u"
  shows "holders u = 0"
proof -
  have "\<not> (snd ts = Probing \<or> snd ts = Putting)" if "ts \<in> set (tasks u)" for ts
  proof -
    from that obtain j where "j < length (tasks u)" "tasks u ! j = ts"
      by (auto simp: in_set_conv_nth)
    with assms show ?thesis
      by (auto simp: served_nth split: if_splits)
  qed
  then have "filter (\<lambda>ts. snd ts = Probing \<or> snd ts = Putting) (tasks u) = []"
    by (simp add: filter_empty_conv)
  then show ?thesis by (simp add: holders_def)
qed

lemma served_step:
  assumes "served k u" and k: "k < length (tasks u)"
  shows "served (Suc k) (advance client k (advance client k (advance client k u)))"
proof (cases "first_exc u")
  case (Some e)
  then have "first_exc (advance client k (advance client k (advance client k u))) \<noteq> None"
    by (intro advance_keeps_exc) simp
  then show ?thesis by (simp add: served_def)
next
  case None
  let ?u1 = "advance client k u"
  let ?u2 = "advance client k ?u1"
  let ?u3 = "advance client k ?u2"
  from assms None have st: "\<And>j. j < length (tasks u) \<Longrightarrow>
      snd (tasks u ! j) = (if j < k then Finished else Queued)"
    by (simp add: served_nth)
  from st [OF k] have q: "snd (tasks u ! k) = Queued" by simp
  have h: "holders u < 10"
    using served_holders [OF None assms(1)] by simp
  have other: "tasks ?u3 ! j = tasks u ! j" if "j \<noteq> k" for j
    using that by (simp add: advance_other)
  have over: "served (Suc k) ?u3"
    if "first_exc ?u3 \<noteq> None \<or> first_exc ?u3 = None \<and> snd (tasks ?u3 ! k) = Finished"
  proof (cases "first_exc ?u3")
    case (Some e)
    then show ?thesis by (simp add: served_def)
  next
    case n3: None
    with that have f: "snd (tasks ?u3 ! k) = Finished" by simp
    have "snd (tasks ?u3 ! j) = (if j < Suc k then Finished else Queued)"
      if "j < length (tasks ?u3)" for j
    proof (cases "j = k")
      case True
      with f show ?thesis by simp
    next
      case False
      with that st [of j] other [of j] show ?thesis by auto
    qed
    with n3 show ?thesis by (simp add: served_nth)
  qed
  have p1: "snd (tasks ?u1 ! k) = Probing" and e1: "first_exc ?u1 = None"
    using advance_queued [OF k q h, of client] None by simp_all
  have k1: "k < length (tasks ?u1)" using k by simp
  have k2: "k < length (tasks ?u2)" using k by simp
  from advance_probing [OF k1 p1 e1]
  consider (raised) "first_exc ?u2 \<noteq> None"
    | (found) "first_exc ?u2 = None" "snd (tasks ?u2 ! k) = Finished"
    | (missing) "first_exc ?u2 = None" "snd (tasks ?u2 ! k) = Putting"
    by blast
  then show ?thesis
  proof cases
    case raised
    then have "first_exc ?u3 \<noteq> None" by (rule advance_keeps_exc)
    then show ?thesis by (intro over) simp
  next
    case found
    then have "?u3 = ?u2" by (simp add: advance_finished)
    with found show ?thesis by (intro over) simp
  next
    case missing
    from advance_putting [OF k2 missing(2) missing(1)] show ?thesis
      by (rule over)
  qed
qed

lemma sequential_Suc: "sequential (Suc n) = sequential n @ [n, n, n]"
  by (simp add: sequential_def)

lemma served_sequential:
  assumes "served 0 u" and "n \<le> length (tasks u)"
  shows "served n (fold (advance client) (sequential n) u)"
  using assms(2)
proof (induction n)
  case 0
  with assms(1) show ?case by (simp add: sequential_def)
next
  case (Suc n)
  then have ih: "served n (fold (advance client) (sequential n) u)" by simp
  from Suc.prems have "n < length (tasks (fold (advance client) (sequential n) u))" by simp
  from served_step [OF ih this, of client] show ?case
    by (simp add: sequential_Suc)
qed

text \<open>
  Whatever the store answers, the uploader returns or fails when every task in turn is
  resumed until it is over: only a call that is never answered keeps it from concluding.
\<close>

lemma sequential_run_concludes:
  "upload_images_bulk client (sequential (length images)) images s \<noteq> None"
proof -
  let ?u0 = "\<lparr>tasks = map (\<lambda>t. (t, Queued)) images, store = s, first_exc = None\<rparr>"
  let ?uf = "fold (advance client) (sequential (length images)) ?u0"
  have "served 0 ?u0"
    by (simp add: served_def list_all_iff)
  then have "served (length images) ?uf"
    by (rule served_sequential) simp
  moreover have "length (tasks ?uf) = length images" by simp
  ultimately have "first_exc ?uf \<noteq> None \<or> list_all (\<lambda>ts. snd ts = Finished) (tasks ?uf)"
    by (simp add: served_def)
  then show ?thesis
    by (auto simp: upload_images_bulk_def conclude_def split: option.splits)
qed

subsection \<open>Running the uploader in the ideal store\<close>

lemma put_keys_append [simp]: "put_keys (xs @ ys) = put_keys xs @ put_keys ys"
  by (induction xs rule: put_keys.induct) simp_all

lemma advance_ideal_cases:
  assumes "first_exc u = None"
  obtains
    (same) "advance ideal_s3 i u = u"
  | (acquire) "i < length (tasks u)" "snd (tasks u ! i) = Queued"
      "advance ideal_s3 i u = u\<lparr>tasks := (tasks u)[i := (fst (tasks u ! i), Probing)]\<rparr>"
  | (found) "i < length (tasks u)" "snd (tasks u ! i) = Probing"
      "snd (fst (tasks u ! i)) \<in> set (remote (store u))"
      "advance ideal_s3 i u =
         \<lparr>tasks = (tasks u)[i := (fst (tasks u ! i), Finished)],
          store = (store u)\<lparr>calls := calls (store u) @ [Head (snd (fst (tasks u ! i)))]\<rparr>,
          first_exc = None\<rparr>"
  | (missing) "i < length (tasks u)" "snd (tasks u ! i) = Probing"
      "snd (fst (tasks u ! i)) \<notin> set (remote (store u))"
      "advance ideal_s3 i u =
         \<lparr>tasks = (tasks u)[i := (fst (tasks u ! i), Putting)],
          store = (store u)\<lparr>calls := calls (store u) @ [Head (snd (fst (tasks u ! i)))]\<rparr>,
          first_exc = None\<rparr>"
  | (put) "i < length (tasks u)" "snd (tasks u ! i) = Putting"
      "advance ideal_s3 i u =
         \<lparr>tasks = (tasks u)[i := (fst (tasks u ! i), Finished)],
          store = \<lparr>remote = snd (fst (tasks u ! i)) # remote (store u),
                   calls = calls (store u) @
                     [Put (fst (fst (tasks u ! i))) (snd (fst (tasks u ! i))) ''image/jpeg'']\<rparr>,
          first_exc = None\<rparr>"
proof (cases "i < length (tasks u)")
  case False
  then have "advance ideal_s3 i u = u" by (simp add: advance_def)
  then show ?thesis by (rule same)
next
  case len: True
  show ?thesis
  proof (cases "snd (tasks u ! i)")
    case Queued
    show ?thesis
    proof (cases "holders u < 10")
      case True
      with len Queued show ?thesis by (intro acquire) (simp_all add: advance_def)
    next
      case False
      with len Queued show ?thesis by (intro same) (simp add: advance_def)
    qed
  next
    case Probing
    show ?thesis
    proof (cases "snd (fst (tasks u ! i)) \<in> set (remote (store u))")
      case True
      with len Probing assms show ?thesis
        by (intro found)
          (simp_all add: advance_def settle_def upload_image_probe_def ideal_s3_def)
    next
      case False
      with len Probing assms show ?thesis
        by (intro missing)
          (simp_all add: advance_def settle_def upload_image_probe_def ideal_s3_def)
    qed
  next
    case Putting
    with len assms show ?thesis
      by (intro put) (simp_all add: advance_def settle_def upload_image_put_def ideal_s3_def)
  next
    case Finished
    with len show ?thesis by (intro same) (simp add: advance_def)
  next
    case (Raised e)
    with len show ?thesis by (intro same) (simp add: advance_def)
  next
    case Cancelled
    with len show ?thesis by (intro same) (simp add: advance_def)
  qed
qed

lemma keys_of_update [simp]:
  "i < length (tasks u) \<Longrightarrow>
   map (\<lambda>ts. snd (fst ts)) ((tasks u)[i := (fst (tasks u ! i), st)]) = keys_of u"
  by (simp add: keys_of_def list_eq_iff_nth_eq nth_list_update)

lemma key_in_keys_of: "i < length (tasks u) \<Longrightarrow> snd (fst (tasks u ! i)) \<in> set (keys_of u)"
  by (simp add: keys_of_def)

lemma new_calls_step:
  assumes "calls (store u) = calls s0 @ new_calls s0 u"
    and "calls (store u') = calls (store u) @ cs"
  shows "new_calls s0 u' = new_calls s0 u @ cs"
    and "calls (store u') = calls s0 @ new_calls s0 u'"
proof -
  from assms(1) have "length (calls s0) \<le> length (calls (store u))"
    by (metis le_add1 length_append)
  with assms(2) show 1: "new_calls s0 u' = new_calls s0 u @ cs"
    by (simp add: new_calls_def)
  from assms show "calls (store u') = calls s0 @ new_calls s0 u'"
    unfolding 1 by simp
qed

lemma keys_of_step:
  "i < length (tasks u) \<Longrightarrow> tasks u' = (tasks u)[i := (fst (tasks u ! i), st)] \<Longrightarrow>
   keys_of u' = keys_of u"
  by (simp add: keys_of_def list_eq_iff_nth_eq nth_list_update)

text \<open>What one resumption does in the ideal store, as the facts the invariants need.\<close>

lemma advance_ideal_step:
  assumes "first_exc u = None"
  obtains
    (same) "advance ideal_s3 i u = u"
  | (moved) st cs where "i < length (tasks u)"
      "tasks (advance ideal_s3 i u) = (tasks u)[i := (fst (tasks u ! i), st)]"
      "calls (store (advance ideal_s3 i u)) = calls (store u) @ cs"
      "first_exc (advance ideal_s3 i u) = None"
      "snd (tasks u ! i) = Queued \<and> st = Probing \<and> cs = [] \<and>
         remote (store (advance ideal_s3 i u)) = remote (store u) \<or>
       snd (tasks u ! i) = Probing \<and> st = Finished \<and> put_keys cs = [] \<and>
         snd (fst (tasks u ! i)) \<in> set (remote (store u)) \<and>
         remote (store (advance ideal_s3 i u)) = remote (store u) \<or>
       snd (tasks u ! i) = Probing \<and> st = Putting \<and> put_keys cs = [] \<and>
         snd (fst (tasks u ! i)) \<notin> set (remote (store u)) \<and>
         remote (store (advance ideal_s3 i u)) = remote (store u) \<or>
       snd (tasks u ! i) = Putting \<and> st = Finished \<and>
         put_keys cs = [snd (fst (tasks u ! i))] \<and>
         remote (store (advance ideal_s3 i u)) = snd (fst (tasks u ! i)) # remote (store u)"
  using assms
proof (cases rule: advance_ideal_cases [of u i])
  case same
  then show ?thesis by (rule that(1))
next
  case acquire
  show ?thesis
    by (rule that(2) [of Probing "[]"]) (simp_all add: acquire assms)
next
  case found
  show ?thesis
    by (rule that(2) [of Finished "[Head (snd (fst (tasks u ! i)))]"]) (simp_all add: found assms)
next
  case missing
  show ?thesis
    by (rule that(2) [of Putting "[Head (snd (fst (tasks u ! i)))]"]) (simp_all add: missing assms)
next
  case put
  show ?thesis
    by (rule that(2) [of Finished
          "[Put (fst (fst (tasks u ! i))) (snd (fst (tasks u ! i))) ''image/jpeg'']"])
      (simp_all add: put assms)
qed

lemma progress_inv_advance:
  assumes "progress_inv s0 u"
  shows "progress_inv s0 (advance ideal_s3 i u)"
proof -
  let ?u' = "advance ideal_s3 i u"
  from assms have exc: "first_exc u = None"
    and st: "\<And>j. j < length (tasks u) \<Longrightarrow> live (snd (tasks u ! j))"
    and fin: "\<And>j. j < length (tasks u) \<Longrightarrow> snd (tasks u ! j) = Finished \<Longrightarrow>
        snd (fst (tasks u ! j)) \<in> set (remote (store u))"
    and pre: "calls (store u) = calls s0 @ new_calls s0 u"
    and rem: "set (remote (store u)) = set (remote s0) \<union> set (put_keys (new_calls s0 u))"
    and sub: "set (put_keys (new_calls s0 u)) \<subseteq> set (keys_of u)"
    unfolding progress_inv_def by blast+
  from exc show ?thesis
  proof (cases rule: advance_ideal_step [of u i])
    case same
    with assms show ?thesis by simp
  next
    case (moved st' cs)
    note nc = new_calls_step [OF pre moved(3)]
    have ko: "keys_of ?u' = keys_of u"
      using moved(1,2) by (rule keys_of_step)
    have k: "snd (fst (tasks u ! i)) \<in> set (keys_of u)"
      using moved(1) by (rule key_in_keys_of)
    have live': "live st'"
      using moved(5) by (auto simp: live_def)
    have sup: "set (remote (store u)) \<subseteq> set (remote (store ?u'))"
      using moved(5) by auto
    have a: "live (snd (tasks ?u' ! j)) \<and>
        (snd (tasks ?u' ! j) = Finished \<longrightarrow> snd (fst (tasks ?u' ! j)) \<in> set (remote (store ?u')))"
      if j: "j < length (tasks ?u')" for j
    proof (cases "j = i")
      case True
      with moved(1,2,5) live' show ?thesis by auto
    next
      case False
      with j moved(2) have "tasks ?u' ! j = tasks u ! j" "j < length (tasks u)" by simp_all
      with st [of j] fin [of j] sup show ?thesis by auto
    qed
    from moved(5) consider
        (quiet) "put_keys cs = []" "remote (store ?u') = remote (store u)"
      | (stored) "put_keys cs = [snd (fst (tasks u ! i))]"
          "remote (store ?u') = snd (fst (tasks u ! i)) # remote (store u)"
      by auto
    then have b: "set (remote (store ?u')) = set (remote s0) \<union> set (put_keys (new_calls s0 ?u'))"
      by cases (simp_all add: nc(1) rem)
    have c: "set (put_keys (new_calls s0 ?u')) \<subseteq> set (keys_of ?u')"
      using moved(5) sub k by (auto simp: nc(1) ko)
    from moved(4) a nc(2) b c show ?thesis
      unfolding progress_inv_def by blast
  qed
qed

lemma once_inv_advance:
  assumes "progress_inv s0 u" and "once_inv s0 u"
  shows "once_inv s0 (advance ideal_s3 i u)"
proof -
  let ?u' = "advance ideal_s3 i u"
  from assms(1) have exc: "first_exc u = None"
    and pre: "calls (store u) = calls s0 @ new_calls s0 u"
    and rem: "set (remote (store u)) = set (remote s0) \<union> set (put_keys (new_calls s0 u))"
    unfolding progress_inv_def by blast+
  from assms(2) have dk: "distinct (keys_of u)"
    and putting: "\<And>j. j < length (tasks u) \<Longrightarrow> snd (tasks u ! j) = Putting \<Longrightarrow>
        snd (fst (tasks u ! j)) \<notin> set (remote (store u))"
    and dp: "distinct (put_keys (new_calls s0 u))"
    and dis: "set (put_keys (new_calls s0 u)) \<inter> set (remote s0) = {}"
    unfolding once_inv_def by blast+
  from exc show ?thesis
  proof (cases rule: advance_ideal_step [of u i])
    case same
    with assms show ?thesis by simp
  next
    case (moved st' cs)
    note nc = new_calls_step [OF pre moved(3)]
    have ko: "keys_of ?u' = keys_of u"
      using moved(1,2) by (rule keys_of_step)
    let ?k = "snd (fst (tasks u ! i))"
    have other: "snd (fst (tasks u ! j)) \<noteq> ?k" if "j < length (tasks u)" "j \<noteq> i" for j
    proof -
      have "(keys_of u ! j = keys_of u ! i) = (j = i)"
        using dk that(1) moved(1) by (intro nth_eq_iff_index_eq) (simp_all add: keys_of_def)
      with that moved(1) show ?thesis by (simp add: keys_of_def)
    qed
    have a: "snd (fst (tasks ?u' ! j)) \<notin> set (remote (store ?u'))"
      if j: "j < length (tasks ?u')" and p: "snd (tasks ?u' ! j) = Putting" for j
    proof (cases "j = i")
      case True
      with moved(1,2,5) p show ?thesis by auto
    next
      case False
      with j moved(2) have same: "tasks ?u' ! j = tasks u ! j" and lj: "j < length (tasks u)"
        by simp_all
      with p have "snd (fst (tasks u ! j)) \<notin> set (remote (store u))"
        using putting [of j] by simp
      moreover have "snd (fst (tasks u ! j)) \<noteq> ?k"
        using lj False by (rule other)
      ultimately show ?thesis
        using moved(5) same by auto
    qed
    have notin: "?k \<notin> set (remote (store u))" if "snd (tasks u ! i) = Putting"
      using moved(1) that by (rule putting)
    have fresh: "?k \<notin> set (remote s0) \<and> ?k \<notin> set (put_keys (new_calls s0 u))"
      if "snd (tasks u ! i) = Putting"
      using notin [OF that] unfolding rem by simp
    from moved(5) consider
        (quiet) "put_keys cs = []"
      | (stored) "put_keys cs = [?k]" "snd (tasks u ! i) = Putting"
      by auto
    then have b: "distinct (put_keys (new_calls s0 ?u'))"
      using dp fresh by cases (simp_all add: nc(1))
    from moved(5) consider
        (quiet) "put_keys cs = []"
      | (stored) "put_keys cs = [?k]" "snd (tasks u ! i) = Putting"
      by auto
    then have c: "set (put_keys (new_calls s0 ?u')) \<inter> set (remote s0) = {}"
      using dis fresh by cases (simp_all add: nc(1))
    from dk a b c show ?thesis
      unfolding once_inv_def ko by blast
  qed
qed

lemma present_inv_advance:
  assumes "progress_inv s0 u" and "present_inv s0 u"
  shows "present_inv s0 (advance ideal_s3 i u)"
proof -
  let ?u' = "advance ideal_s3 i u"
  from assms(1) have exc: "first_exc u = None"
    and pre: "calls (store u) = calls s0 @ new_calls s0 u"
    and rem: "set (remote (store u)) = set (remote s0) \<union> set (put_keys (new_calls s0 u))"
    unfolding progress_inv_def by blast+
  from assms(2) have ks: "set (keys_of u) \<subseteq> set (remote s0)"
    and np: "\<And>j. j < length (tasks u) \<Longrightarrow> snd (tasks u ! j) \<noteq> Putting"
    and nil: "put_keys (new_calls s0 u) = []"
    unfolding present_inv_def by blast+
  from exc show ?thesis
  proof (cases rule: advance_ideal_step [of u i])
    case same
    with assms show ?thesis by simp
  next
    case (moved st' cs)
    note nc = new_calls_step [OF pre moved(3)]
    have ko: "keys_of ?u' = keys_of u"
      using moved(1,2) by (rule keys_of_step)
    have "snd (fst (tasks u ! i)) \<in> set (keys_of u)"
      using moved(1) by (rule key_in_keys_of)
    with ks rem have here: "snd (fst (tasks u ! i)) \<in> set (remote (store u))" by auto
    from moved(5) here np [OF moved(1)]
    have st': "st' \<noteq> Putting" and cs: "put_keys cs = []"
      by auto
    have a: "snd (tasks ?u' ! j) \<noteq> Putting" if j: "j < length (tasks ?u')" for j
    proof (cases "j = i")
      case True
      with moved(1,2) st' show ?thesis by simp
    next
      case False
      with j moved(2) have "tasks ?u' ! j = tasks u ! j" "j < length (tasks u)" by simp_all
      with np [of j] show ?thesis by simp
    qed
    from ks a nil cs show ?thesis
      unfolding present_inv_def ko by (simp add: nc(1))
  qed
qed

lemma invs_fold:
  assumes "progress_inv s0 u"
  shows "progress_inv s0 (fold (advance ideal_s3) sched u)"
    and "once_inv s0 u \<Longrightarrow> once_inv s0 (fold (advance ideal_s3) sched u)"
    and "present_inv s0 u \<Longrightarrow> present_inv s0 (fold (advance ideal_s3) sched u)"
  using assms
proof (induction sched arbitrary: u)
  case Nil
  { case 1 then show ?case by simp }
  { case 2 then show ?case by simp }
  { case 3 then show ?case by simp }
next
  case (Cons i sched)
  { case 1 then show ?case by (simp add: Cons.IH(1) progress_inv_advance) }
  { case 2 then show ?case
      by (simp add: Cons.IH(2) progress_inv_advance once_inv_advance) }
  { case 3 then show ?case
      by (simp add: Cons.IH(3) progress_inv_advance present_inv_advance) }
qed

lemma initial_invs:
  fixes s :: "key list s3" and images :: "task list"
  defines "u0 \<equiv> \<lparr>tasks = map (\<lambda>t. (t, Queued)) images, store = s, first_exc = None\<rparr>"
  shows "progress_inv s u0"
    and "distinct (map snd images) \<Longrightarrow> once_inv s u0"
    and "set (map snd images) \<subseteq> set (remote s) \<Longrightarrow> present_inv s u0"
    and "keys_of u0 = map snd images"
  by (auto simp: u0_def progress_inv_def once_inv_def present_inv_def new_calls_def keys_of_def
      live_def comp_def)

text \<open>The ideal store never makes the uploader fail, and a run that returns has stored every key.\<close>

lemma ideal_run:
  assumes "upload_images_bulk ideal_s3 sched images s = Some (out, u)"
  shows "out = Returned"
    and "calls (store u) = calls s @ new_calls s u"
    and "set (put_keys (new_calls s u)) \<subseteq> set (map snd images)"
    and "set (map snd images) \<subseteq> set (remote (store u))"
    and "set (remote (store u)) = set (remote s) \<union> set (put_keys (new_calls s u))"
    and "distinct (map snd images) \<Longrightarrow>
           distinct (put_keys (new_calls s u)) \<and> set (put_keys (new_calls s u)) \<inter> set (remote s) = {}"
    and "set (map snd images) \<subseteq> set (remote s) \<Longrightarrow> put_keys (new_calls s u) = []"
proof -
  define u0 :: "key list uploader" where
    "u0 = \<lparr>tasks = map (\<lambda>t. (t, Queued)) images, store = s, first_exc = None\<rparr>"
  define uf where "uf = fold (advance ideal_s3) sched u0"
  have run: "conclude uf = Some (out, u)"
    using assms by (simp add: upload_images_bulk_def uf_def u0_def)
  have p: "progress_inv s uf"
    unfolding uf_def u0_def by (intro invs_fold(1) initial_invs(1))
  then have exc: "first_exc uf = None"
    by (simp add: progress_inv_def)
  with run have u: "u = uf" and out: "out = Returned"
    and all: "list_all (\<lambda>ts. snd ts = Finished) (tasks uf)"
    by (auto simp: conclude_def split: if_splits)
  have keys: "keys_of uf = map snd images"
    by (simp add: keys_of_def uf_def u0_def map_fst_tasks_fold [symmetric]
        flip: map_map [of snd fst, unfolded comp_def]) 
  show "out = Returned" by (rule out)
  from p show "calls (store u) = calls s @ new_calls s u"
    and "set (remote (store u)) = set (remote s) \<union> set (put_keys (new_calls s u))"
    unfolding u progress_inv_def by blast+
  from p keys show "set (put_keys (new_calls s u)) \<subseteq> set (map snd images)"
    unfolding u progress_inv_def by auto
  show "set (map snd images) \<subseteq> set (remote (store u))"
  proof
    fix k assume "k \<in> set (map snd images)"
    with keys obtain j where j: "j < length (tasks uf)" "snd (fst (tasks uf ! j)) = k"
      by (metis (no_types, lifting) in_set_conv_nth keys_of_def length_map nth_map)
    with all have "snd (tasks uf ! j) = Finished"
      by (simp add: list_all_length)
    with p j show "k \<in> set (remote (store u))"
      unfolding u progress_inv_def by blast
  qed
  show "distinct (put_keys (new_calls s u)) \<and> set (put_keys (new_calls s u)) \<inter> set (remote s) = {}"
    if "distinct (map snd images)"
  proof -
    have "once_inv s uf"
      unfolding uf_def u0_def
      by (intro invs_fold(2) initial_invs(1) initial_invs(2) that)
    then show ?thesis by (simp add: u once_inv_def)
  qed
  show "put_keys (new_calls s u) = []" if "set (map snd images) \<subseteq> set (remote s)"
  proof -
    have "present_inv s uf"
      unfolding uf_def u0_def
      by (intro invs_fold(3) initial_invs(1) initial_invs(3) that)
    then show ?thesis by (simp add: u present_inv_def)
  qed
qed

text \<open>
  C4, as amended. In a store where a key exists exactly after it has been put, and where none
  of the destination keys exists beforehand, two runs of the uploader over the same task
  list that both return put every destination key at least once and nothing else, put every
  key exactly once when the destination keys of the list are pairwise distinct, and make no
  put at all in the second run. This holds for every order in which the tasks of each run
  are resumed.
\<close>

theorem upload_twice_puts_once:
  assumes absent: "set (map snd images) \<inter> set r0 = {}"
    and run1: "upload_images_bulk ideal_s3 sched1 images \<lparr>remote = r0, calls = []\<rparr> = Some (out1, u1)"
    and run2: "upload_images_bulk ideal_s3 sched2 images (store u1) = Some (out2, u2)"
  shows "out1 = Returned \<and> out2 = Returned \<and>
     set (put_keys (calls (store u2))) = set (map snd images) \<and>
     (distinct (map snd images) \<longrightarrow> distinct (put_keys (calls (store u2)))) \<and>
     (\<exists>hs. calls (store u2) = calls (store u1) @ hs \<and> put_keys hs = [])"
proof -
  let ?s0 = "\<lparr>remote = r0, calls = []\<rparr> :: key list s3"
  note r1 = ideal_run [OF run1]
  note r2 = ideal_run [OF run2]
  have c1: "calls (store u1) = new_calls ?s0 u1"
    using r1(2) by simp
  have sub: "set (put_keys (calls (store u1))) \<subseteq> set (map snd images)"
    using r1(3) c1 by simp
  have "set (map snd images) \<subseteq> set r0 \<union> set (put_keys (calls (store u1)))"
    using r1(4) r1(5) c1 by simp
  with absent have sup: "set (map snd images) \<subseteq> set (put_keys (calls (store u1)))"
    by blast
  have none: "put_keys (new_calls (store u1) u2) = []"
    using r1(4) by (rule r2(7))
  have c2: "calls (store u2) = calls (store u1) @ new_calls (store u1) u2"
    by (rule r2(2))
  have same: "put_keys (calls (store u2)) = put_keys (calls (store u1))"
    by (simp add: c2 none)
  have d: "distinct (put_keys (calls (store u2)))" if "distinct (map snd images)"
    using r1(6) [OF that] c1 same by simp
  from sub sup have "set (put_keys (calls (store u2))) = set (map snd images)"
    unfolding same by blast
  with r1(1) r2(1) d c2 none show ?thesis by blast
qed

text \<open>Two runs over the two assets of one user, with another user's image already stored.\<close>

theorem upload_twice_puts_once_witness:
  "set (map snd [((''img'', ''a.jpg''), ''users/1_M.jpg''), ((''img'', ''b.jpg''), ''users/1_S.jpg'')]) \<inter>
     set [''users/7_M.jpg''] = {} \<and>
   distinct (map snd [((''img'', ''a.jpg''), ''users/1_M.jpg''), ((''img'', ''b.jpg''), ''users/1_S.jpg'')]) \<and>
   upload_images_bulk ideal_s3 [0, 1, 1, 0, 1, 0]
       [((''img'', ''a.jpg''), ''users/1_M.jpg''), ((''img'', ''b.jpg''), ''users/1_S.jpg'')]
       \<lparr>remote = [''users/7_M.jpg''], calls = []\<rparr> =
     Some (Returned,
       \<lparr>tasks = [(((''img'', ''a.jpg''), ''users/1_M.jpg''), Finished),
                 (((''img'', ''b.jpg''), ''users/1_S.jpg''), Finished)],
        store = \<lparr>remote = [''users/1_M.jpg'', ''users/1_S.jpg'', ''users/7_M.jpg''],
                 calls = [Head ''users/1_S.jpg'', Head ''users/1_M.jpg'',
                          Put (''img'', ''b.jpg'') ''users/1_S.jpg'' ''image/jpeg'',
                          Put (''img'', ''a.jpg'') ''users/1_M.jpg'' ''image/jpeg'']\<rparr>,
        first_exc = None\<rparr>) \<and>
   upload_images_bulk ideal_s3 [1, 0, 1, 0]
       [((''img'', ''a.jpg''), ''users/1_M.jpg''), ((''img'', ''b.jpg''), ''users/1_S.jpg'')]
       \<lparr>remote = [''users/1_M.jpg'', ''users/1_S.jpg'', ''users/7_M.jpg''],
        calls = [Head ''users/1_S.jpg'', Head ''users/1_M.jpg'',
                 Put (''img'', ''b.jpg'') ''users/1_S.jpg'' ''image/jpeg'',
                 Put (''img'', ''a.jpg'') ''users/1_M.jpg'' ''image/jpeg'']\<rparr> =
     Some (Returned,
       \<lparr>tasks = [(((''img'', ''a.jpg''), ''users/1_M.jpg''), Finished),
                 (((''img'', ''b.jpg''), ''users/1_S.jpg''), Finished)],
        store = \<lparr>remote = [''users/1_M.jpg'', ''users/1_S.jpg'', ''users/7_M.jpg''],
                 calls = [Head ''users/1_S.jpg'', Head ''users/1_M.jpg'',
                          Put (''img'', ''b.jpg'') ''users/1_S.jpg'' ''image/jpeg'',
                          Put (''img'', ''a.jpg'') ''users/1_M.jpg'' ''image/jpeg'',
                          Head ''users/1_S.jpg'', Head ''users/1_M.jpg'']\<rparr>,
        first_exc = None\<rparr>) \<and>
   set (put_keys [Head ''users/1_S.jpg'', Head ''users/1_M.jpg'',
                  Put (''img'', ''b.jpg'') ''users/1_S.jpg'' ''image/jpeg'',
                  Put (''img'', ''a.jpg'') ''users/1_M.jpg'' ''image/jpeg'',
                  Head ''users/1_S.jpg'', Head ''users/1_M.jpg'']) =
     set (map snd [((''img'', ''a.jpg''), ''users/1_M.jpg''), ((''img'', ''b.jpg''), ''users/1_S.jpg'')])"
proof -
  let ?images = "[((''img'', ''a.jpg''), ''users/1_M.jpg''), ((''img'', ''b.jpg''), ''users/1_S.jpg'')]"
  let ?s1 = "\<lparr>remote = [''users/1_M.jpg'', ''users/1_S.jpg'', ''users/7_M.jpg''],
        calls = [Head ''users/1_S.jpg'', Head ''users/1_M.jpg'',
                 Put (''img'', ''b.jpg'') ''users/1_S.jpg'' ''image/jpeg'',
                 Put (''img'', ''a.jpg'') ''users/1_M.jpg'' ''image/jpeg'']\<rparr>"
  let ?u1 = "\<lparr>tasks = [(((''img'', ''a.jpg''), ''users/1_M.jpg''), Finished),
                 (((''img'', ''b.jpg''), ''users/1_S.jpg''), Finished)],
        store = ?s1, first_exc = None\<rparr>"
  let ?u2 = "\<lparr>tasks = [(((''img'', ''a.jpg''), ''users/1_M.jpg''), Finished),
                 (((''img'', ''b.jpg''), ''users/1_S.jpg''), Finished)],
        store = \<lparr>remote = [''users/1_M.jpg'', ''users/1_S.jpg'', ''users/7_M.jpg''],
                 calls = [Head ''users/1_S.jpg'', Head ''users/1_M.jpg'',
                          Put (''img'', ''b.jpg'') ''users/1_S.jpg'' ''image/jpeg'',
                          Put (''img'', ''a.jpg'') ''users/1_M.jpg'' ''image/jpeg'',
                          Head ''users/1_S.jpg'', Head ''users/1_M.jpg'']\<rparr>,
        first_exc = None\<rparr>"
  have h0: "set (map snd ?images) \<inter> set [''users/7_M.jpg''] = {}"
    by simp
  have hd: "distinct (map snd ?images)"
    by simp
  have h1: "upload_images_bulk ideal_s3 [0, 1, 1, 0, 1, 0] ?images
      \<lparr>remote = [''users/7_M.jpg''], calls = []\<rparr> = Some (Returned, ?u1)"
    by (simp add: uploader_eval ideal_s3_def)
  have h2: "upload_images_bulk ideal_s3 [1, 0, 1, 0] ?images (store ?u1) = Some (Returned, ?u2)"
    by (simp add: uploader_eval ideal_s3_def)
  from upload_twice_puts_once [OF h0 h1 h2]
  have "set (put_keys (calls (store ?u2))) = set (map snd ?images)"
    by blast
  with h0 hd h1 h2 show ?thesis by simp
qed

text \<open>
  C4 as stated fails for a task list that names one destination key twice. Both tasks hold
  the semaphore and send their probes before either has uploaded; both probes are answered
  404, and both tasks upload: two puts for one unique key in the first run alone.
\<close>

theorem upload_same_key_twice_counterexample:
  "report (upload_images_bulk ideal_s3 [0, 1, 0, 1, 0, 1]
      [((''img'', ''a.jpg''), ''summits/s1_vid_0.jpg''), ((''img'', ''a.jpg''), ''summits/s1_vid_0.jpg'')]
      \<lparr>remote = [], calls = []\<rparr>) =
   Some (Returned, [Finished, Finished],
     [Head ''summits/s1_vid_0.jpg'', Head ''summits/s1_vid_0.jpg'',
      Put (''img'', ''a.jpg'') ''summits/s1_vid_0.jpg'' ''image/jpeg'',
      Put (''img'', ''a.jpg'') ''summits/s1_vid_0.jpg'' ''image/jpeg''])"
  by (simp add: uploader_eval ideal_s3_def)

section \<open>Properties of the summit exporter\<close>










lemmas exporter_eval = export_summits_def image_s3_key_def preview_s3_key_def gen_image_key_def
  py_lower_def replace_space_def is_ascii_def ascii_lower_def sample_textlib_def sample_row_def
  key_eq_def float_eq_def vid_def str_nat.simps



text \<open>
  C8, as amended. A row without an image filename is skipped whatever its preview filename
  is: the loop over a group behaves as if the row were not there. It appends no image entry,
  queues no task, leaves the position counter as it is and raises nothing.
\<close>

theorem null_image_row_skipped:
  "image_filename r = None \<Longrightarrow>
   image_loop lib dir sid (before @ r # after) i imgs ups =
   image_loop lib dir sid (before @ after) i imgs ups"
proof (induction before arbitrary: i imgs ups)
  case Nil
  then show ?case by simp
next
  case (Cons b before)
  then show ?case
    by (simp split: option.splits)
qed

text \<open>A row with a preview but no image, between two image rows.\<close>

theorem null_image_row_skipped_witness:
  "image_filename (sample_row ''s1'' None (Some ''x.jpg'') None) = None \<and>
   image_loop sample_textlib ''/img'' ''s1''
     ([sample_row ''s1'' (Some ''a.jpg'') (Some ''a_p.jpg'') (Some vid)] @
      sample_row ''s1'' None (Some ''x.jpg'') None #
      [sample_row ''s1'' (Some ''b.jpg'') (Some ''b_p.jpg'') (Some vid)]) 0 [] [] =
   image_loop sample_textlib ''/img'' ''s1''
     ([sample_row ''s1'' (Some ''a.jpg'') (Some ''a_p.jpg'') (Some vid)] @
      [sample_row ''s1'' (Some ''b.jpg'') (Some ''b_p.jpg'') (Some vid)]) 0 [] [] \<and>
   fst (image_loop sample_textlib ''/img'' ''s1''
     ([sample_row ''s1'' (Some ''a.jpg'') (Some ''a_p.jpg'') (Some vid)] @
      [sample_row ''s1'' (Some ''b.jpg'') (Some ''b_p.jpg'') (Some vid)]) 0 [] []) = None"
proof -
  have h: "image_filename (sample_row ''s1'' None (Some ''x.jpg'') None) = None"
    by (simp add: sample_row_def)
  have n: "fst (image_loop sample_textlib ''/img'' ''s1''
     ([sample_row ''s1'' (Some ''a.jpg'') (Some ''a_p.jpg'') (Some vid)] @
      [sample_row ''s1'' (Some ''b.jpg'') (Some ''b_p.jpg'') (Some vid)]) 0 [] []) = None"
    by (simp add: sample_row_def)
  from h n null_image_row_skipped [OF h, of sample_textlib "''/img''" "''s1''"
      "[sample_row ''s1'' (Some ''a.jpg'') (Some ''a_p.jpg'') (Some vid)]"
      "[sample_row ''s1'' (Some ''b.jpg'') (Some ''b_p.jpg'') (Some vid)]" 0 "[]" "[]"]
  show ?thesis by blast
qed

text \<open>
  C8 as stated fails for the other half: a row with an image filename and no preview filename
  is not skipped. The exporter raises \<^verbatim>\<open>TypeError\<close> when it builds the preview path.
\<close>

theorem image_without_preview_counterexample:
  "export_summits sample_textlib ''/img'' [sample_row ''s1'' (Some ''a.jpg'') None (Some vid)] =
   (Some TypeError, \<lparr>files = [], images_to_upload = []\<rparr>)"
  by (simp add: exporter_eval)

subsection \<open>Documents and queued uploads\<close>

lemma image_loop_queued:
  assumes "image_loop lib dir sid rs i imgs ups = (None, imgs', ups')"
    and "\<forall>img\<in>set imgs. url img \<in> snd ` set ups \<and> preview_url img \<in> snd ` set ups"
  shows "(\<forall>img\<in>set imgs'. url img \<in> snd ` set ups' \<and> preview_url img \<in> snd ` set ups') \<and>
     set ups \<subseteq> set ups'"
  using assms
proof (induction rs arbitrary: i imgs ups)
  case Nil
  then show ?case by simp
next
  case (Cons r rs)
  show ?case
  proof (cases "image_filename r")
    case None
    with Cons.prems show ?thesis
      by (intro Cons.IH [of i imgs ups]) simp_all
  next
    case (Some f)
    with Cons.prems(1) obtain p c where pc: "preview_filename r = Some p" "comment r = Some c"
      by (auto split: option.splits)
    let ?imgs = "imgs @ [\<lparr>url = image_s3_key lib sid c i, preview_url = preview_s3_key lib sid c i,
        ref_comment = c\<rparr>]"
    let ?ups = "ups @ [((dir, f), image_s3_key lib sid c i), ((dir, p), preview_s3_key lib sid c i)]"
    from Cons.prems(1) Some pc
    have run: "image_loop lib dir sid rs (i + 1) ?imgs ?ups = (None, imgs', ups')"
      by simp
    have inv: "\<forall>img\<in>set ?imgs. url img \<in> snd ` set ?ups \<and> preview_url img \<in> snd ` set ?ups"
      using Cons.prems(2) by (auto simp: image_iff)
    from Cons.IH [OF run inv] show ?thesis by auto
  qed
qed

lemma summit_loop_queued:
  assumes "summit_loop lib dir gs st = (None, st')" and "refs_queued st"
  shows "refs_queued st'"
  using assms
proof (induction gs arbitrary: st)
  case Nil
  then show ?case by simp
next
  case (Cons sg gs)
  obtain s g where sg: "sg = (s, g)" by (cases sg)
  from Cons.prems(1) sg obtain xy where xy: "coordinates s = Some xy"
    by (auto split: option.splits)
  obtain e imgs ups where il:
    "image_loop lib dir (summit_id s) g 0 [] (images_to_upload st) = (e, imgs, ups)"
    by (metis prod_cases3)
  with Cons.prems(1) sg xy have e: "e = None"
    by (cases e) auto
  let ?st = "\<lparr>files = files st @
      [((ridge_id s, summit_id s @ ''.yaml''),
        \<lparr>data_name = name s, data_name_alt = name_alt s, data_height = height s,
         data_description = description s, data_interpretation = interpretation_col s,
         data_coordinates = [fst xy, snd xy], data_images = imgs\<rparr>)],
     images_to_upload = ups\<rparr>"
  from Cons.prems(1) sg xy il e have run: "summit_loop lib dir gs ?st = (None, st')"
    by simp
  from image_loop_queued [OF il [unfolded e]]
  have new: "\<forall>img\<in>set imgs. url img \<in> snd ` set ups \<and> preview_url img \<in> snd ` set ups"
    and mono: "set (images_to_upload st) \<subseteq> set ups"
    by simp_all
  have "refs_queued ?st"
    unfolding refs_queued_def
  proof (intro ballI)
    fix f img
    assume f: "f \<in> set (files ?st)" and img: "img \<in> set (data_images (snd f))"
    show "url img \<in> snd ` set (images_to_upload ?st) \<and>
        preview_url img \<in> snd ` set (images_to_upload ?st)"
    proof (cases "f \<in> set (files st)")
      case True
      with Cons.prems(2) img
      have "url img \<in> snd ` set (images_to_upload st) \<and>
          preview_url img \<in> snd ` set (images_to_upload st)"
        by (simp add: refs_queued_def)
      with mono show ?thesis by auto
    next
      case False
      with f img have "img \<in> set imgs" by auto
      with new show ?thesis by simp
    qed
  qed
  with run show ?case by (rule Cons.IH)
qed

lemma bulk_tasks:
  assumes "upload_images_bulk client sched images s = Some (out, u)"
  shows "map fst (tasks u) = images"
proof -
  let ?uf = "fold (advance client) sched
      \<lparr>tasks = map (\<lambda>t. (t, Queued)) images, store = s, first_exc = None\<rparr>"
  have "map fst (tasks ?uf) = images"
    by (simp add: comp_def)
  moreover from assms have "u = ?uf \<or> u = cancel_pending ?uf"
    by (auto simp: upload_images_bulk_def conclude_def split: option.splits if_splits)
  ultimately show ?thesis
    by (auto simp: cancel_pending_def comp_def)
qed

text \<open>
  C2. When \<^verbatim>\<open>import_summits\<close> has processed all rows and its uploader has returned or
  failed, the task list of the uploader is the list the export accumulated, and every key in
  a \<^verbatim>\<open>url\<close> or \<^verbatim>\<open>preview_url\<close> field of a written document is the destination key of
  one of these tasks.
\<close>

theorem import_summits_refs_queued:
  assumes "import_summits client sched lib dir rows s = Some (out, st, Some u)"
  shows "map fst (tasks u) = images_to_upload st \<and>
     (\<forall>f\<in>set (files st). \<forall>img\<in>set (data_images (snd f)).
        url img \<in> snd ` fst ` set (tasks u) \<and> preview_url img \<in> snd ` fst ` set (tasks u))"
proof -
  from assms have ex: "export_summits lib dir rows = (None, st)"
    and up: "upload_images_bulk client sched (images_to_upload st) s = Some (out, u)"
    by (auto simp: import_summits_def split: prod.splits option.splits)
  have t: "map fst (tasks u) = images_to_upload st"
    using up by (rule bulk_tasks)
  have "refs_queued \<lparr>files = [], images_to_upload = []\<rparr>"
    by (simp add: refs_queued_def)
  with ex have "refs_queued st"
    unfolding export_summits_def by (rule summit_loop_queued)
  moreover have "fst ` set (tasks u) = set (images_to_upload st)"
    using t by (metis set_map)
  ultimately show ?thesis
    using t by (simp add: refs_queued_def)
qed

text \<open>The import of one summit with one image into an empty ideal store.\<close>

theorem import_summits_refs_queued_witness:
  "import_summits ideal_s3 [0, 1, 0, 1, 0, 1] sample_textlib ''/img''
     [sample_row ''s1'' (Some ''a.jpg'') (Some ''a_p.jpg'') (Some vid)] \<lparr>remote = [], calls = []\<rparr> =
   Some (Returned,
     \<lparr>files = [((''r1'', ''s1.yaml''),
        \<lparr>data_name = PyStr ''Peak'', data_name_alt = PyNone, data_height = PyInt 4000,
         data_description = PyNone, data_interpretation = PyNone,
         data_coordinates = [Finite 45, Finite 7],
         data_images = [\<lparr>url = ''summits/s1_vid_0.jpg'',
           preview_url = ''summits/s1_vid_0_preview.jpg'', ref_comment = vid\<rparr>]\<rparr>)],
      images_to_upload = [((''/img'', ''a.jpg''), ''summits/s1_vid_0.jpg''),
        ((''/img'', ''a_p.jpg''), ''summits/s1_vid_0_preview.jpg'')]\<rparr>,
     Some \<lparr>tasks = [(((''/img'', ''a.jpg''), ''summits/s1_vid_0.jpg''), Finished),
         (((''/img'', ''a_p.jpg''), ''summits/s1_vid_0_preview.jpg''), Finished)],
       store = \<lparr>remote = [''summits/s1_vid_0_preview.jpg'', ''summits/s1_vid_0.jpg''],
         calls = [Head ''summits/s1_vid_0.jpg'', Head ''summits/s1_vid_0_preview.jpg'',
           Put (''/img'', ''a.jpg'') ''summits/s1_vid_0.jpg'' ''image/jpeg'',
           Put (''/img'', ''a_p.jpg'') ''summits/s1_vid_0_preview.jpg'' ''image/jpeg'']\<rparr>,
       first_exc = None\<rparr>) \<and>
   map fst [(((''/img'', ''a.jpg''), ''summits/s1_vid_0.jpg''), Finished),
         (((''/img'', ''a_p.jpg''), ''summits/s1_vid_0_preview.jpg''), Finished)] =
     [((''/img'', ''a.jpg''), ''summits/s1_vid_0.jpg''),
      ((''/img'', ''a_p.jpg''), ''summits/s1_vid_0_preview.jpg'')]"
proof -
  have run: "import_summits ideal_s3 [0, 1, 0, 1, 0, 1] sample_textlib ''/img''
     [sample_row ''s1'' (Some ''a.jpg'') (Some ''a_p.jpg'') (Some vid)] \<lparr>remote = [], calls = []\<rparr> =
   Some (Returned,
     \<lparr>files = [((''r1'', ''s1.yaml''),
        \<lparr>data_name = PyStr ''Peak'', data_name_alt = PyNone, data_height = PyInt 4000,
         data_description = PyNone, data_interpretation = PyNone,
         data_coordinates = [Finite 45, Finite 7],
         data_images = [\<lparr>url = ''summits/s1_vid_0.jpg'',
           preview_url = ''summits/s1_vid_0_preview.jpg'', ref_comment = vid\<rparr>]\<rparr>)],
      images_to_upload = [((''/img'', ''a.jpg''), ''summits/s1_vid_0.jpg''),
        ((''/img'', ''a_p.jpg''), ''summits/s1_vid_0_preview.jpg'')]\<rparr>,
     Some \<lparr>tasks = [(((''/img'', ''a.jpg''), ''summits/s1_vid_0.jpg''), Finished),
         (((''/img'', ''a_p.jpg''), ''summits/s1_vid_0_preview.jpg''), Finished)],
       store = \<lparr>remote = [''summits/s1_vid_0_preview.jpg'', ''summits/s1_vid_0.jpg''],
         calls = [Head ''summits/s1_vid_0.jpg'', Head ''summits/s1_vid_0_preview.jpg'',
           Put (''/img'', ''a.jpg'') ''summits/s1_vid_0.jpg'' ''image/jpeg'',
           Put (''/img'', ''a_p.jpg'') ''summits/s1_vid_0_preview.jpg'' ''image/jpeg'']\<rparr>,
       first_exc = None\<rparr>)"
  proof -
    have ex: "export_summits sample_textlib ''/img''
        [sample_row ''s1'' (Some ''a.jpg'') (Some ''a_p.jpg'') (Some vid)] =
      (None, \<lparr>files = [((''r1'', ''s1.yaml''),
        \<lparr>data_name = PyStr ''Peak'', data_name_alt = PyNone, data_height = PyInt 4000,
         data_description = PyNone, data_interpretation = PyNone,
         data_coordinates = [Finite 45, Finite 7],
         data_images = [\<lparr>url = ''summits/s1_vid_0.jpg'',
           preview_url = ''summits/s1_vid_0_preview.jpg'', ref_comment = vid\<rparr>]\<rparr>)],
      images_to_upload = [((''/img'', ''a.jpg''), ''summits/s1_vid_0.jpg''),
        ((''/img'', ''a_p.jpg''), ''summits/s1_vid_0_preview.jpg'')]\<rparr>)"
      by (simp add: exporter_eval)
    have up: "upload_images_bulk ideal_s3 [0, 1, 0, 1, 0, 1]
        [((''/img'', ''a.jpg''), ''summits/s1_vid_0.jpg''),
         ((''/img'', ''a_p.jpg''), ''summits/s1_vid_0_preview.jpg'')] \<lparr>remote = [], calls = []\<rparr> =
      Some (Returned, \<lparr>tasks = [(((''/img'', ''a.jpg''), ''summits/s1_vid_0.jpg''), Finished),
         (((''/img'', ''a_p.jpg''), ''summits/s1_vid_0_preview.jpg''), Finished)],
       store = \<lparr>remote = [''summits/s1_vid_0_preview.jpg'', ''summits/s1_vid_0.jpg''],
         calls = [Head ''summits/s1_vid_0.jpg'', Head ''summits/s1_vid_0_preview.jpg'',
           Put (''/img'', ''a.jpg'') ''summits/s1_vid_0.jpg'' ''image/jpeg'',
           Put (''/img'', ''a_p.jpg'') ''summits/s1_vid_0_preview.jpg'' ''image/jpeg'']\<rparr>,
       first_exc = None\<rparr>)"
      by (simp add: uploader_eval ideal_s3_def)
    show ?thesis
      unfolding import_summits_def ex by (simp add: up del: One_nat_def)
  qed
  from import_summits_refs_queued [OF run] run show ?thesis
    by simp
qed

section \<open>The end-to-end scenario\<close>

lemma scenario_point:
  "cast_point ext (Some ''(45.12345,7.6789)'') =
     Inr (Some (to_double (451234 / 10000), to_double (76789 / 10000)))"
  by (simp add: cast_point_def strip_chars_def parse_eval float_eval)

lemma scenario_literals:
  "py_float ext ''45.1234'' = Some (to_double (451234 / 10000))"
  "py_float ext ''45.1235'' = Some (to_double (451235 / 10000))"
  "py_float ext ''7.6789'' = Some (to_double (76789 / 10000))"
  by (simp_all add: parse_eval)

lemma scenario_rounds_down: "to_double (451234 / 10000) \<noteq> to_double (451235 / 10000)"
  by (simp add: float_eval)

lemma scenario_key:
  "translit lib vid = ''Vid'' \<Longrightarrow> gen_image_key lib ''s1'' vid = ''s1_vid''"
  by (simp add: gen_image_key_def py_lower_def replace_space_def is_ascii_def ascii_lower_def)

text \<open>
  C7, as amended. For summit \<open>s1\<close> with coordinate text \<^verbatim>\<open>(45.12345,7.6789)\<close> and one image
  row whose comment is transliterated to \<^verbatim>\<open>Vid\<close>, the document has the coordinates
  \<^verbatim>\<open>[45.1234, 7.6789]\<close>, that is, the floats these two literals denote, and exactly one
  image entry, with url \<^verbatim>\<open>summits/s1_vid_0.jpg\<close> and preview url
  \<^verbatim>\<open>summits/s1_vid_0_preview.jpg\<close>; exactly two transfer tasks are queued, for these two
  keys.
\<close>

theorem end_to_end_scenario:
  assumes "translit lib vid = ''Vid''"
  shows "end_to_end lib ext dir =
     (None,
      \<lparr>files = [((''r1'', ''s1.yaml''),
         \<lparr>data_name = PyStr ''Peak'', data_name_alt = PyNone, data_height = PyInt 4000,
          data_description = PyNone, data_interpretation = PyNone,
          data_coordinates = [to_double (451234 / 10000), to_double (76789 / 10000)],
          data_images = [\<lparr>url = ''summits/s1_vid_0.jpg'',
            preview_url = ''summits/s1_vid_0_preview.jpg'', ref_comment = vid\<rparr>]\<rparr>)],
       images_to_upload = [((dir, ''a.jpg''), ''summits/s1_vid_0.jpg''),
         ((dir, ''a_p.jpg''), ''summits/s1_vid_0_preview.jpg'')]\<rparr>) \<and>
     py_float ext ''45.1234'' = Some (to_double (451234 / 10000)) \<and>
     py_float ext ''7.6789'' = Some (to_double (76789 / 10000))"
proof -
  have row: "read_row ext (sample_row ''s1'' (Some ''a.jpg'') (Some ''a_p.jpg'') (Some vid))
      (Some ''(45.12345,7.6789)'') =
    Inr ((sample_row ''s1'' (Some ''a.jpg'') (Some ''a_p.jpg'') (Some vid))
      \<lparr>coordinates := Some (to_double (451234 / 10000), to_double (76789 / 10000))\<rparr>)"
    by (simp add: read_row_def scenario_point)
  have "export_summits lib dir
      [(sample_row ''s1'' (Some ''a.jpg'') (Some ''a_p.jpg'') (Some vid))
         \<lparr>coordinates := Some (to_double (451234 / 10000), to_double (76789 / 10000))\<rparr>] =
     (None,
      \<lparr>files = [((''r1'', ''s1.yaml''),
         \<lparr>data_name = PyStr ''Peak'', data_name_alt = PyNone, data_height = PyInt 4000,
          data_description = PyNone, data_interpretation = PyNone,
          data_coordinates = [to_double (451234 / 10000), to_double (76789 / 10000)],
          data_images = [\<lparr>url = ''summits/s1_vid_0.jpg'',
            preview_url = ''summits/s1_vid_0_preview.jpg'', ref_comment = vid\<rparr>]\<rparr>)],
       images_to_upload = [((dir, ''a.jpg''), ''summits/s1_vid_0.jpg''),
         ((dir, ''a_p.jpg''), ''summits/s1_vid_0_preview.jpg'')]\<rparr>)"
    by (simp add: export_summits_def sample_row_def image_s3_key_def preview_s3_key_def
        scenario_key [OF assms] str_nat.simps)
  then show ?thesis
    by (simp add: end_to_end_def row scenario_literals)
qed

text \<open>The scenario with the excerpt of the Russian table and the image directory of the program.\<close>

theorem end_to_end_scenario_witness:
  "translit sample_textlib vid = ''Vid'' \<and>
   end_to_end sample_textlib (\<lambda>_. None) ''/home/rush/thousands-backup/images'' =
     (None,
      \<lparr>files = [((''r1'', ''s1.yaml''),
         \<lparr>data_name = PyStr ''Peak'', data_name_alt = PyNone, data_height = PyInt 4000,
          data_description = PyNone, data_interpretation = PyNone,
          data_coordinates = [to_double (451234 / 10000), to_double (76789 / 10000)],
          data_images = [\<lparr>url = ''summits/s1_vid_0.jpg'',
            preview_url = ''summits/s1_vid_0_preview.jpg'', ref_comment = vid\<rparr>]\<rparr>)],
       images_to_upload =
         [((''/home/rush/thousands-backup/images'', ''a.jpg''), ''summits/s1_vid_0.jpg''),
          ((''/home/rush/thousands-backup/images'', ''a_p.jpg''), ''summits/s1_vid_0_preview.jpg'')]\<rparr>)"
proof -
  have h: "translit sample_textlib vid = ''Vid''"
    by (simp add: sample_textlib_def vid_def)
  from h end_to_end_scenario [OF h, of "\<lambda>_. None" "''/home/rush/thousands-backup/images''"]
  show ?thesis by blast
qed

text \<open>
  C7 as stated fails in the first coordinate. The double nearest to 45.12345 is
  45.12344999999999828..., below the midpoint between 45.1234 and 45.1235, and
  \<^verbatim>\<open>round(x, 4)\<close> rounds the exact value of the double: the document holds the float
  45.1234, which is not the float 45.1235.
\<close>

theorem end_to_end_coordinates_counterexample:
  "map (\<lambda>f. map Some (data_coordinates (snd f)))
     (files (snd (end_to_end sample_textlib (\<lambda>_. None) ''/home/rush/thousands-backup/images''))) =
     [[py_float (\<lambda>_. None) ''45.1234'', py_float (\<lambda>_. None) ''7.6789'']] \<and>
   py_float (\<lambda>_. None) ''45.1234'' \<noteq> py_float (\<lambda>_. None) ''45.1235''"
proof -
  have "end_to_end sample_textlib (\<lambda>_. None) ''/home/rush/thousands-backup/images'' =
      export_summits sample_textlib ''/home/rush/thousands-backup/images''
        [(sample_row ''s1'' (Some ''a.jpg'') (Some ''a_p.jpg'') (Some vid))
           \<lparr>coordinates := Some (to_double (451234 / 10000), to_double (76789 / 10000))\<rparr>]"
    by (simp add: end_to_end_def read_row_def scenario_point)
  then have "map (\<lambda>f. map Some (data_coordinates (snd f)))
     (files (snd (end_to_end sample_textlib (\<lambda>_. None) ''/home/rush/thousands-backup/images''))) =
     [[Some (to_double (451234 / 10000)), Some (to_double (76789 / 10000))]]"
    by (simp add: export_summits_def sample_row_def)
  then show ?thesis
    using scenario_rounds_down by (simp add: scenario_literals)
qed

section \<open>Properties of the mirror writer\<close>

lemma asset_loop_pair:
  "asset_loop ex dir uid [(Some f, ''M''), (Some p, ''S'')] ups m =
     (None,
      ups @ map (\<lambda>fs. ((dir, fst fs), user_key uid (snd fs)))
              (filter (\<lambda>fs. ex (dir, fst fs)) [(f, ''M''), (p, ''S'')]),
      m\<lparr>user_images := user_images m @
          map (\<lambda>fs. (uid, snd fs, user_key uid (snd fs)))
              (filter (\<lambda>fs. ex (dir, fst fs)) [(f, ''M''), (p, ''S'')])\<rparr>)"
  by simp

lemma asset_loop_no_preview:
  "fst (asset_loop ex dir uid [(Some f, ''M''), (None, ''S'')] ups m) = Some TypeError"
  by simp

lemma truthy_Some: "truthy v \<Longrightarrow> \<exists>f. v = Some f \<and> f \<noteq> []"
  by (cases v) (auto simp: truthy_def)

lemma user_loop_error:
  "fst (user_loop ex dir rows ups m) =
     (if \<exists>r\<in>set rows. truthy (user_image r) \<and> user_preview r = None then Some TypeError else None)"
proof (induction rows arbitrary: ups m)
  case Nil
  then show ?case by simp
next
  case (Cons r rows)
  show ?case
  proof (cases "truthy (user_image r)")
    case False
    then show ?thesis using Cons.IH by simp
  next
    case True
    then obtain f where f: "user_image r = Some f" by (auto dest: truthy_Some)
    show ?thesis
    proof (cases "user_preview r")
      case None
      with True f show ?thesis
        using asset_loop_no_preview [of ex dir "user_id r" f ups]
        by (auto split: prod.splits option.splits)
    next
      case (Some p)
      with True f show ?thesis
        using Cons.IH by (simp only: user_loop.simps asset_loop_pair) simp
    qed
  qed
qed

lemma user_loop_closed:
  assumes "\<forall>r\<in>set rows. truthy (user_image r) \<longrightarrow> user_preview r \<noteq> None"
  shows "user_loop ex dir rows ups m =
     (None, ups @ concat (map (user_tasks ex dir) rows), mirror_after ex dir rows m)"
  using assms
proof (induction rows arbitrary: ups m)
  case Nil
  then show ?case by simp
next
  case (Cons r rows)
  then have rest: "\<forall>r\<in>set rows. truthy (user_image r) \<longrightarrow> user_preview r \<noteq> None" by simp
  show ?case
  proof (cases "truthy (user_image r)")
    case False
    then show ?thesis
      using Cons.IH [OF rest]
      by (simp add: user_tasks_def user_image_rows_def present_assets_def users_entry_of_def
          execute_insert_user_def)
  next
    case True
    then obtain f where f: "user_image r = Some f" by (auto dest: truthy_Some)
    from True Cons.prems obtain p where p: "user_preview r = Some p" by auto
    have upd: "(m'\<lparr>user_images := user_images m' @ xs\<rparr>) = (m'\<lparr>user_images := user_images m @ xs\<rparr>)"
      if "m' = execute_insert_user m (users_entry_of r)" for m' xs
      using that by (simp add: execute_insert_user_def)
    from True f p show ?thesis
      using Cons.IH [OF rest]
      by (simp only: user_loop.simps asset_loop_pair)
        (simp add: user_tasks_def user_image_rows_def present_assets_def users_entry_of_def
          execute_insert_user_def)
  qed
qed

lemma mirror_after_user_images:
  "user_images (mirror_after ex dir rows m) =
     user_images m @ concat (map (user_image_rows ex dir) rows)"
  by (induction rows arbitrary: m) (simp_all add: execute_insert_user_def)

lemma mirror_after_climbs: "climbs (mirror_after ex dir rows m) = climbs m"
  by (induction rows arbitrary: m) (simp_all add: execute_insert_user_def)

lemma mirror_after_users_present:
  "user_id ` set rows \<subseteq> fst ` set (users m) \<Longrightarrow> users (mirror_after ex dir rows m) = users m"
  by (induction rows arbitrary: m) (simp_all add: execute_insert_user_def users_entry_of_def)

lemma mirror_after_ids:
  "fst ` set (users m) \<union> user_id ` set rows \<subseteq> fst ` set (users (mirror_after ex dir rows m))"
proof (induction rows arbitrary: m)
  case Nil
  then show ?case by simp
next
  case (Cons r rows)
  let ?m = "(execute_insert_user m (users_entry_of r))\<lparr>user_images := user_images m @ user_image_rows ex dir r\<rparr>"
  have a: "fst ` set (users m) \<union> {user_id r} \<subseteq> fst ` set (users ?m)"
    by (auto simp: execute_insert_user_def users_entry_of_def)
  have b: "fst ` set (users ?m) \<union> user_id ` set rows \<subseteq>
      fst ` set (users (mirror_after ex dir rows ?m))"
    by (rule Cons.IH)
  have c: "mirror_after ex dir (r # rows) m = mirror_after ex dir rows ?m"
    by simp
  have d: "user_id ` set (r # rows) = insert (user_id r) (user_id ` set rows)"
    by simp
  show ?case
    unfolding c d using a b by blast
qed

lemma foldl_insert_climb: "climbs (foldl execute_insert_climb m rows) = climbs m @ rows"
  by (induction rows arbitrary: m) (simp_all add: execute_insert_climb_def)

lemma import_users_returned:
  assumes "import_users client sched ex dir rows s conn = Some (Returned, conn', s')"
  shows "committed conn' = mirror_after ex dir rows (working conn)"
    and "working conn' = mirror_after ex dir rows (working conn)"
proof -
  obtain e ups m where loop: "user_loop ex dir rows [] (working conn) = (e, ups, m)"
    by (metis prod_cases3)
  with assms have e: "e = None"
    by (cases e) (auto simp: import_users_def)
  with loop have "fst (user_loop ex dir rows [] (working conn)) = None" by simp
  then have ok: "\<forall>r\<in>set rows. truthy (user_image r) \<longrightarrow> user_preview r \<noteq> None"
    unfolding user_loop_error by (auto split: if_splits)
  from user_loop_closed [OF ok, of ex dir "[]" "working conn"] loop
  have m: "m = mirror_after ex dir rows (working conn)" by simp
  from assms loop e have "committed conn' = m \<and> working conn' = m"
    by (auto simp: import_users_def split: option.splits outcome.splits)
  with m show "committed conn' = mirror_after ex dir rows (working conn)"
    and "working conn' = mirror_after ex dir rows (working conn)"
    by simp_all
qed

lemmas mirror_eval = sample_users_def sample_disk_def empty_mirror_def execute_insert_user_def
  user_key_def str_int_def str_nat.simps truthy_def

text \<open>
  C9. The user insert leaves the mirror as it is when the id is already there: the first
  row written for an id stays, and nothing is raised. The inserts into \<^verbatim>\<open>user_images\<close>
  and \<^verbatim>\<open>climbs\<close> are plain: a second successful run of \<^verbatim>\<open>import_users\<close> over the
  same rows and files leaves \<^verbatim>\<open>users\<close> unchanged and appends to \<^verbatim>\<open>user_images\<close> the
  same rows that the first run appended, and a second run of \<^verbatim>\<open>import_climbs\<close> appends
  the climb rows again.
\<close>

theorem mirror_rerun:
  "(fst e \<in> fst ` set (users m) \<longrightarrow> execute_insert_user m e = m) \<and>
   (import_users client sched ex dir rows s conn = Some (Returned, conn1, s1) \<and>
    import_users client' sched' ex dir rows s1 conn1 = Some (Returned, conn2, s2) \<longrightarrow>
      users (committed conn2) = users (committed conn1) \<and>
      user_images (committed conn1) =
        user_images (working conn) @ concat (map (user_image_rows ex dir) rows) \<and>
      user_images (committed conn2) =
        user_images (committed conn1) @ concat (map (user_image_rows ex dir) rows)) \<and>
   climbs (committed (import_climbs crows conn)) = climbs (working conn) @ crows \<and>
   climbs (committed (import_climbs crows (import_climbs crows conn))) =
     climbs (working conn) @ crows @ crows"
proof -
  have a: "fst e \<in> fst ` set (users m) \<longrightarrow> execute_insert_user m e = m"
    by (simp add: execute_insert_user_def)
  have b: "import_users client sched ex dir rows s conn = Some (Returned, conn1, s1) \<and>
    import_users client' sched' ex dir rows s1 conn1 = Some (Returned, conn2, s2) \<longrightarrow>
      users (committed conn2) = users (committed conn1) \<and>
      user_images (committed conn1) =
        user_images (working conn) @ concat (map (user_image_rows ex dir) rows) \<and>
      user_images (committed conn2) =
        user_images (committed conn1) @ concat (map (user_image_rows ex dir) rows)"
  proof
    assume runs: "import_users client sched ex dir rows s conn = Some (Returned, conn1, s1) \<and>
      import_users client' sched' ex dir rows s1 conn1 = Some (Returned, conn2, s2)"
    then have r1: "import_users client sched ex dir rows s conn = Some (Returned, conn1, s1)"
      and r2: "import_users client' sched' ex dir rows s1 conn1 = Some (Returned, conn2, s2)"
      by simp_all
    note c1 = import_users_returned [OF r1]
    note c2 = import_users_returned [OF r2]
    have ids: "user_id ` set rows \<subseteq> fst ` set (users (working conn1))"
      unfolding c1(2) using mirror_after_ids [of "working conn" rows ex dir] by blast
    have "users (committed conn2) = users (working conn1)"
      unfolding c2(1) using ids by (rule mirror_after_users_present)
    then show "users (committed conn2) = users (committed conn1) \<and>
        user_images (committed conn1) =
          user_images (working conn) @ concat (map (user_image_rows ex dir) rows) \<and>
        user_images (committed conn2) =
          user_images (committed conn1) @ concat (map (user_image_rows ex dir) rows)"
      by (simp add: c1 c2 mirror_after_user_images)
  qed
  have c: "climbs (committed (import_climbs crows conn)) = climbs (working conn) @ crows"
    by (simp add: import_climbs_def foldl_insert_climb)
  have d: "climbs (committed (import_climbs crows (import_climbs crows conn))) =
     climbs (working conn) @ crows @ crows"
    by (simp add: import_climbs_def foldl_insert_climb)
  show ?thesis
    by (intro conjI) (rule a, rule b, rule c, rule d)
qed

text \<open>Two imports of the sample users into an empty mirror and an empty ideal store.\<close>

theorem mirror_rerun_witness:
  "import_users ideal_s3 [0, 0, 0] sample_disk ''/img'' sample_users \<lparr>remote = [], calls = []\<rparr>
       \<lparr>committed = empty_mirror, working = empty_mirror\<rparr> =
     Some (Returned, \<lparr>committed = mirror_once, working = mirror_once\<rparr>, store_once) \<and>
   import_users ideal_s3 [0, 0] sample_disk ''/img'' sample_users store_once
       \<lparr>committed = mirror_once, working = mirror_once\<rparr> =
     Some (Returned, \<lparr>committed = mirror_twice, working = mirror_twice\<rparr>, store_twice) \<and>
   users mirror_twice = users mirror_once \<and>
   user_images mirror_twice =
     user_images mirror_once @ concat (map (user_image_rows sample_disk ''/img'') sample_users) \<and>
   fst (1, ''other'', 7, ''Zed'') \<in> fst ` set (users mirror_once) \<and>
   execute_insert_user mirror_once (1, ''other'', 7, ''Zed'') = mirror_once"
proof -
  have l1: "user_loop sample_disk ''/img'' sample_users [] empty_mirror =
      (None, [((''/img'', ''1.jpg''), ''users/1_M.jpg'')], mirror_once)"
    by (simp add: mirror_eval mirror_once_def)
  have u1: "upload_images_bulk ideal_s3 [0, 0, 0] [((''/img'', ''1.jpg''), ''users/1_M.jpg'')]
      \<lparr>remote = [], calls = []\<rparr> =
    Some (Returned, \<lparr>tasks = [(((''/img'', ''1.jpg''), ''users/1_M.jpg''), Finished)],
      store = store_once, first_exc = None\<rparr>)"
    by (simp add: uploader_eval ideal_s3_def store_once_def)
  have r1: "import_users ideal_s3 [0, 0, 0] sample_disk ''/img'' sample_users \<lparr>remote = [], calls = []\<rparr>
       \<lparr>committed = empty_mirror, working = empty_mirror\<rparr> =
     Some (Returned, \<lparr>committed = mirror_once, working = mirror_once\<rparr>, store_once)"
    by (simp add: import_users_def l1 u1)
  have l2: "user_loop sample_disk ''/img'' sample_users [] mirror_once =
      (None, [((''/img'', ''1.jpg''), ''users/1_M.jpg'')], mirror_twice)"
    by (simp add: mirror_eval mirror_once_def mirror_twice_def)
  have u2: "upload_images_bulk ideal_s3 [0, 0] [((''/img'', ''1.jpg''), ''users/1_M.jpg'')]
      store_once =
    Some (Returned, \<lparr>tasks = [(((''/img'', ''1.jpg''), ''users/1_M.jpg''), Finished)],
      store = store_twice, first_exc = None\<rparr>)"
    by (simp add: uploader_eval ideal_s3_def store_once_def store_twice_def)
  have r2: "import_users ideal_s3 [0, 0] sample_disk ''/img'' sample_users store_once
       \<lparr>committed = mirror_once, working = mirror_once\<rparr> =
     Some (Returned, \<lparr>committed = mirror_twice, working = mirror_twice\<rparr>, store_twice)"
    by (simp add: import_users_def l2 u2)
  have h: "fst (1, ''other'', 7, ''Zed'') \<in> fst ` set (users mirror_once)"
    by (simp add: mirror_once_def)
  note spec = mirror_rerun [where client = ideal_s3 and client' = ideal_s3 and sched = "[0, 0, 0]"
      and sched' = "[0, 0]" and ex = sample_disk and dir = "''/img''" and rows = sample_users
      and s = "\<lparr>remote = [], calls = []\<rparr>"
      and conn = "\<lparr>committed = empty_mirror, working = empty_mirror\<rparr>"
      and ?conn1.0 = "\<lparr>committed = mirror_once, working = mirror_once\<rparr>" and ?s1.0 = store_once
      and ?conn2.0 = "\<lparr>committed = mirror_twice, working = mirror_twice\<rparr>" and ?s2.0 = store_twice
      and e = "(1, ''other'', 7, ''Zed'')" and m = mirror_once]
  from spec r1 r2 h
  have "users mirror_twice = users mirror_once \<and>
    user_images mirror_twice =
      user_images mirror_once @ concat (map (user_image_rows sample_disk ''/img'') sample_users) \<and>
    execute_insert_user mirror_once (1, ''other'', 7, ''Zed'') = mirror_once"
    by simp
  with r1 r2 h show ?thesis by blast
qed

text \<open>
  C10. A row whose image is truthy and whose preview is \<^verbatim>\<open>None\<close> makes the users import
  raise \<^verbatim>\<open>TypeError\<close>, whatever exists on disk: the path is built before its existence
  is asked. Nothing is committed and the uploader is not reached. When no row is like that
  the loop does not raise, and what it queues and inserts is, row by row, one task and one
  \<^verbatim>\<open>user_images\<close> row for each of the image and the preview whose file exists, and
  nothing for an asset whose file is absent or for a row without an image.
\<close>

theorem import_users_null_preview:
  "((\<exists>r\<in>set rows. truthy (user_image r) \<and> user_preview r = None) \<longrightarrow>
      fst (user_loop ex dir rows ups m) = Some TypeError \<and>
      (\<exists>m'. import_users client sched ex dir rows s conn =
         Some (Failed TypeError, conn\<lparr>working := m'\<rparr>, s))) \<and>
   ((\<forall>r\<in>set rows. truthy (user_image r) \<longrightarrow> user_preview r \<noteq> None) \<longrightarrow>
      user_loop ex dir rows ups m =
        (None, ups @ concat (map (user_tasks ex dir) rows), mirror_after ex dir rows m) \<and>
      user_images (mirror_after ex dir rows m) =
        user_images m @ concat (map (user_image_rows ex dir) rows)) \<and>
   (\<forall>(r::user_row) f p. user_image r = Some f \<and> f \<noteq> [] \<and> user_preview r = Some p \<longrightarrow>
      user_tasks ex dir r =
        (if ex (dir, f) then [((dir, f), user_key (user_id r) ''M'')] else []) @
        (if ex (dir, p) then [((dir, p), user_key (user_id r) ''S'')] else []) \<and>
      user_image_rows ex dir r =
        (if ex (dir, f) then [(user_id r, ''M'', user_key (user_id r) ''M'')] else []) @
        (if ex (dir, p) then [(user_id r, ''S'', user_key (user_id r) ''S'')] else [])) \<and>
   (\<forall>r::user_row. \<not> truthy (user_image r) \<longrightarrow>
      user_tasks ex dir r = [] \<and> user_image_rows ex dir r = [])"
proof -
  have a: "(\<exists>r\<in>set rows. truthy (user_image r) \<and> user_preview r = None) \<longrightarrow>
      fst (user_loop ex dir rows ups m) = Some TypeError \<and>
      (\<exists>m'. import_users client sched ex dir rows s conn =
         Some (Failed TypeError, conn\<lparr>working := m'\<rparr>, s))"
  proof
    assume bad: "\<exists>r\<in>set rows. truthy (user_image r) \<and> user_preview r = None"
    then have 1: "fst (user_loop ex dir rows ups m) = Some TypeError"
      by (simp add: user_loop_error)
    from bad have "fst (user_loop ex dir rows [] (working conn)) = Some TypeError"
      by (simp add: user_loop_error)
    then obtain ups' m' where "user_loop ex dir rows [] (working conn) = (Some TypeError, ups', m')"
      by (metis fst_conv prod_cases3)
    then have "import_users client sched ex dir rows s conn =
        Some (Failed TypeError, conn\<lparr>working := m'\<rparr>, s)"
      by (simp add: import_users_def)
    then have "\<exists>m'. import_users client sched ex dir rows s conn =
        Some (Failed TypeError, conn\<lparr>working := m'\<rparr>, s)" ..
    with 1 show "fst (user_loop ex dir rows ups m) = Some TypeError \<and>
        (\<exists>m'. import_users client sched ex dir rows s conn =
           Some (Failed TypeError, conn\<lparr>working := m'\<rparr>, s))" ..
  qed
  have b: "(\<forall>r\<in>set rows. truthy (user_image r) \<longrightarrow> user_preview r \<noteq> None) \<longrightarrow>
      user_loop ex dir rows ups m =
        (None, ups @ concat (map (user_tasks ex dir) rows), mirror_after ex dir rows m) \<and>
      user_images (mirror_after ex dir rows m) =
        user_images m @ concat (map (user_image_rows ex dir) rows)"
    by (simp add: user_loop_closed mirror_after_user_images)
  have c: "\<forall>(r::user_row) f p. user_image r = Some f \<and> f \<noteq> [] \<and> user_preview r = Some p \<longrightarrow>
      user_tasks ex dir r =
        (if ex (dir, f) then [((dir, f), user_key (user_id r) ''M'')] else []) @
        (if ex (dir, p) then [((dir, p), user_key (user_id r) ''S'')] else []) \<and>
      user_image_rows ex dir r =
        (if ex (dir, f) then [(user_id r, ''M'', user_key (user_id r) ''M'')] else []) @
        (if ex (dir, p) then [(user_id r, ''S'', user_key (user_id r) ''S'')] else [])"
    by (simp add: user_tasks_def user_image_rows_def present_assets_def truthy_def)
  have d: "\<forall>r::user_row. \<not> truthy (user_image r) \<longrightarrow>
      user_tasks ex dir r = [] \<and> user_image_rows ex dir r = []"
    by (simp add: user_tasks_def user_image_rows_def present_assets_def)
  show ?thesis
    by (intro conjI) (rule a, rule b, rule c, rule d)
qed

text \<open>A user row with an image and no preview, with nothing on disk; and the sample users.\<close>

theorem import_users_null_preview_witness:
  "list_ex (\<lambda>r. truthy (user_image r) \<and> user_preview r = None) user_without_preview \<and>
   fst (user_loop (\<lambda>p. False) ''/img'' user_without_preview [] empty_mirror) = Some TypeError \<and>
   list_all (\<lambda>r. \<not> truthy (user_image r) \<or> user_preview r \<noteq> None) sample_users \<and>
   user_loop sample_disk ''/img'' sample_users [] empty_mirror =
     (None, [] @ concat (map (user_tasks sample_disk ''/img'') sample_users),
      mirror_after sample_disk ''/img'' sample_users empty_mirror) \<and>
   concat (map (user_tasks sample_disk ''/img'') sample_users) =
     [((''/img'', ''1.jpg''), ''users/1_M.jpg'')] \<and>
   mirror_after sample_disk ''/img'' sample_users empty_mirror = mirror_once"
proof -
  have hb: "\<exists>r\<in>set user_without_preview. truthy (user_image r) \<and> user_preview r = None"
    by (simp add: user_without_preview_def truthy_def)
  have hg: "\<forall>r\<in>set sample_users. truthy (user_image r) \<longrightarrow> user_preview r \<noteq> None"
    by (simp add: sample_users_def truthy_def)
  from hb import_users_null_preview [where rows = user_without_preview and ex = "\<lambda>p. False"
      and dir = "''/img''" and ups = "[]" and m = empty_mirror]
  have 1: "fst (user_loop (\<lambda>p. False) ''/img'' user_without_preview [] empty_mirror) = Some TypeError"
    by blast
  from hg import_users_null_preview [where rows = sample_users and ex = sample_disk
      and dir = "''/img''" and ups = "[]" and m = empty_mirror]
  have 2: "user_loop sample_disk ''/img'' sample_users [] empty_mirror =
     (None, [] @ concat (map (user_tasks sample_disk ''/img'') sample_users),
      mirror_after sample_disk ''/img'' sample_users empty_mirror)"
    by blast
  have 3: "concat (map (user_tasks sample_disk ''/img'') sample_users) =
     [((''/img'', ''1.jpg''), ''users/1_M.jpg'')]"
    by (simp add: user_tasks_def present_assets_def mirror_eval)
  have 4: "mirror_after sample_disk ''/img'' sample_users empty_mirror = mirror_once"
    by (simp add: user_image_rows_def present_assets_def users_entry_of_def mirror_eval
        mirror_once_def)
  from hb have hb': "list_ex (\<lambda>r. truthy (user_image r) \<and> user_preview r = None) user_without_preview"
    by (simp only: list_ex_iff)
  from hg have hg': "list_all (\<lambda>r. \<not> truthy (user_image r) \<or> user_preview r \<noteq> None) sample_users"
    by (simp add: list_all_iff)
  from hb' 1 hg' 2 3 4 show ?thesis by blast
qed

end
